theory Spec2Isabelle
  imports Main "HOL-Library.Word"
begin

section \<open>The dynamic sparse graph of Graph.h\<close>

text \<open>
  Graph.h implements an adjacency-list graph. A \<open>Graph\<close> owns an
  \<open>unordered_map\<close> from keys to \<open>shared_ptr<Vertex>\<close> and a \<open>size_t\<close> counter; a
  \<open>Vertex\<close> owns a \<open>vector\<close> of \<open>shared_ptr<Edge>\<close>; an \<open>Edge\<close> owns an array of two
  \<open>shared_ptr<Vertex>\<close>. Vertices and edges are shared objects that the operations
  mutate through pointers, so the embedding has an explicit store: a pointer is an
  address, and the objects live in two heaps indexed by address.

  A \<open>shared_ptr\<close> reclaims its object only when no pointer to it is left, so
  reclamation cannot be observed through a pointer; the model leaves reclaimed objects
  in the heap as garbage, and \<open>new\<close> returns the next unused address.
\<close>

subsection \<open>Data model\<close>

type_synonym vref = nat \<comment> \<open>the address held by a \<open>shared_ptr<Vertex<V, E>>\<close>\<close>
type_synonym eref = nat \<comment> \<open>the address held by a \<open>shared_ptr<Edge<V, E>>\<close>\<close>

text \<open>\<open>struct Vertex\<close>: the member \<open>edges\<close> and the member \<open>data\<close>.\<close>

record 'v Vertex =
  vertex_edges :: "eref list"
  vertex_data :: 'v

text \<open>\<open>struct Edge\<close>: the member \<open>vertices\<close> (an array of two pointers; \<open>at(0)\<close> is the
  first component, \<open>at(1)\<close> the second) and the member \<open>data\<close>.\<close>

record 'e Edge =
  edge_vertices :: "vref \<times> vref"
  edge_data :: 'e

text \<open>
  The program state: the two private members of \<open>class Graph\<close> (\<open>size\<close>, a \<open>size_t\<close>,
  here of 64 bits, and \<open>vertices\<close>) and the two heaps. The \<open>unordered_map\<close> is an
  association list in its iteration order, which \<open>getKey\<close> walks; the order is
  unspecified in C++, and no theorem below depends on where \<open>insert\<close> puts a new pair.
\<close>

record ('k, 'v, 'e) state =
  graph_size :: "64 word"
  graph_vertices :: "('k \<times> vref) list"
  vertex_heap :: "'v Vertex list"
  edge_heap :: "'e Edge list"

text \<open>
  How a call can end other than by returning. \<open>AssertionFailed\<close> is a failed
  \<open>assert\<close>, \<open>OutOfRange\<close> the \<open>std::out_of_range\<close> that \<open>unordered_map::at\<close> throws
  for a missing key. \<open>InvalidIterator\<close> is the undefined behaviour of writing through
  (or stepping back from) the \<open>end()\<close> iterator that \<open>std::find\<close> returns when it finds
  nothing. \<open>InvalidPointer\<close> stands for following an address that is outside the heap;
  a \<open>shared_ptr\<close> made by \<open>new\<close> never does that, the model only has states that do.
\<close>

datatype error = AssertionFailed | OutOfRange | InvalidIterator | InvalidPointer

text \<open>A mutating operation returns the new state, or the error together with the
  state in which the call was abandoned.\<close>

type_synonym ('k, 'v, 'e) result = "(error \<times> ('k, 'v, 'e) state) + ('k, 'v, 'e) state"

subsection \<open>Store access\<close>

text \<open>\<open>vertex->edges\<close>, read.\<close>

definition edges_at :: "('k, 'v, 'e) state \<Rightarrow> vref \<Rightarrow> eref list option" where
  "edges_at s a =
     (if a < length (vertex_heap s) then Some (vertex_edges (vertex_heap s ! a)) else None)"

text \<open>\<open>vertex->edges\<close>, overwritten (the address is in the heap wherever this is used).\<close>

definition set_edges :: "vref \<Rightarrow> eref list \<Rightarrow> ('k, 'v, 'e) state \<Rightarrow> ('k, 'v, 'e) state" where
  "set_edges a es s =
     s\<lparr>vertex_heap := (vertex_heap s)[a := (vertex_heap s ! a)\<lparr>vertex_edges := es\<rparr>]\<rparr>"

text \<open>\<open>vertices.insert(pair)\<close>: an \<open>unordered_map\<close> keeps the old pair when the key
  is already there.\<close>

definition insert_pair :: "'k \<times> vref \<Rightarrow> ('k \<times> vref) list \<Rightarrow> ('k \<times> vref) list" where
  "insert_pair p vs = (case map_of vs (fst p) of None \<Rightarrow> vs @ [p] | Some _ \<Rightarrow> vs)"

text \<open>\<open>vertices.erase(key)\<close>.\<close>

definition erase :: "'k \<Rightarrow> ('k \<times> vref) list \<Rightarrow> ('k \<times> vref) list" where
  "erase key vs = filter (\<lambda>p. fst p \<noteq> key) vs"

text \<open>
  The scan of \<open>getEdge\<close> and \<open>removeEdge\<close>:
  \<^verbatim>\<open>while (it != end && (*it)->vertices.at(0) != vertex_1
                    && (*it)->vertices.at(1) != vertex_1) ++it;\<close>
  The result is the position where the iterator stops; the length of the list is
  \<open>end()\<close>.
\<close>

fun scan_edges :: "'e Edge list \<Rightarrow> vref \<Rightarrow> eref list \<Rightarrow> error + nat" where
  "scan_edges eh vertex_1 [] = Inr 0"
| "scan_edges eh vertex_1 (e # es) =
     (if e < length eh then
        (if fst (edge_vertices (eh ! e)) \<noteq> vertex_1 \<and> snd (edge_vertices (eh ! e)) \<noteq> vertex_1
         then map_sum id Suc (scan_edges eh vertex_1 es)
         else Inr 0)
      else Inl InvalidPointer)"

text \<open>\<open>std::find(begin, end, old_edge)\<close> on a vector of pointers: the first position
  holding the same address, the length of the list for \<open>end()\<close>.\<close>

fun find_ptr :: "eref \<Rightarrow> eref list \<Rightarrow> nat" where
  "find_ptr old_edge [] = 0"
| "find_ptr old_edge (x # xs) = (if x = old_edge then 0 else Suc (find_ptr old_edge xs))"

text \<open>\<open>*it = *(--edges.end()); edges.pop_back();\<close> for an iterator at position \<open>i\<close>
  inside the vector.\<close>

definition swap_remove :: "nat \<Rightarrow> eref list \<Rightarrow> eref list" where
  "swap_remove i xs = butlast (xs[i := last xs])"

subsection \<open>Construction and the operations\<close>

text \<open>\<open>Graph()\<close> and \<open>Graph(size_t vertex_count)\<close>: \<open>reserve\<close> changes no contents.\<close>

definition Graph_init :: "('k, 'v, 'e) state" where
  "Graph_init = \<lparr>graph_size = 0, graph_vertices = [], vertex_heap = [], edge_heap = []\<rparr>"

definition addVertex :: "'k \<Rightarrow> 'v \<Rightarrow> ('k, 'v, 'e) state \<Rightarrow> ('k, 'v, 'e) state" where
  "addVertex key data s =
     (let new_vertex = length (vertex_heap s);
          s1 = s\<lparr>vertex_heap := vertex_heap s @ [\<lparr>vertex_edges = [], vertex_data = data\<rparr>]\<rparr>;
          s2 = s1\<lparr>graph_vertices := insert_pair (key, new_vertex) (graph_vertices s1)\<rparr>
      in s2\<lparr>graph_size := graph_size s2 + 1\<rparr>)"

definition addEdge :: "'k \<Rightarrow> 'k \<Rightarrow> 'e \<Rightarrow> ('k, 'v, 'e) state \<Rightarrow> ('k, 'v, 'e) result" where
  "addEdge key_0 key_1 data s =
     (if \<not> key_0 \<noteq> key_1 then Inl (AssertionFailed, s)
      else case map_of (graph_vertices s) key_0 of
        None \<Rightarrow> Inl (OutOfRange, s)
      | Some vertex_0 \<Rightarrow>
      (case map_of (graph_vertices s) key_1 of
        None \<Rightarrow> Inl (OutOfRange, s)
      | Some vertex_1 \<Rightarrow>
      (let new_edge = length (edge_heap s);
           s1 = s\<lparr>edge_heap := edge_heap s @ [\<lparr>edge_vertices = (vertex_0, vertex_1), edge_data = data\<rparr>]\<rparr>
       in case edges_at s1 vertex_0 of
         None \<Rightarrow> Inl (InvalidPointer, s1)
       | Some es0 \<Rightarrow>
       (let s2 = set_edges vertex_0 (es0 @ [new_edge]) s1
        in case edges_at s2 vertex_1 of
          None \<Rightarrow> Inl (InvalidPointer, s2)
        | Some es1 \<Rightarrow> Inr (set_edges vertex_1 (es1 @ [new_edge]) s2)))))"

definition getVertex :: "'k \<Rightarrow> ('k, 'v, 'e) state \<Rightarrow> error + vref" where
  "getVertex key s =
     (case map_of (graph_vertices s) key of None \<Rightarrow> Inl OutOfRange | Some v \<Rightarrow> Inr v)"

definition getEdge :: "'k \<Rightarrow> 'k \<Rightarrow> ('k, 'v, 'e) state \<Rightarrow> error + eref" where
  "getEdge key_0 key_1 s =
     (if \<not> key_0 \<noteq> key_1 then Inl AssertionFailed
      else case map_of (graph_vertices s) key_0 of
        None \<Rightarrow> Inl OutOfRange
      | Some vertex_0 \<Rightarrow>
      (case map_of (graph_vertices s) key_1 of
        None \<Rightarrow> Inl OutOfRange
      | Some vertex_1 \<Rightarrow>
      (case edges_at s vertex_0 of
        None \<Rightarrow> Inl InvalidPointer
      | Some es0 \<Rightarrow>
      (case scan_edges (edge_heap s) vertex_1 es0 of
        Inl err \<Rightarrow> Inl err
      | Inr i \<Rightarrow> if \<not> i \<noteq> length es0 then Inl AssertionFailed else Inr (es0 ! i)))))"

text \<open>The scan of \<open>getKey\<close> over the pairs of the map, comparing addresses.\<close>

fun scan_vertices :: "vref \<Rightarrow> ('k \<times> vref) list \<Rightarrow> 'k option" where
  "scan_vertices vertex [] = None"
| "scan_vertices vertex (p # ps) =
     (if snd p \<noteq> vertex then scan_vertices vertex ps else Some (fst p))"

definition getKey :: "vref \<Rightarrow> ('k, 'v, 'e) state \<Rightarrow> error + 'k" where
  "getKey vertex s =
     (case scan_vertices vertex (graph_vertices s) of
        None \<Rightarrow> Inl AssertionFailed
      | Some key \<Rightarrow> Inr key)"

definition getSize :: "('k, 'v, 'e) state \<Rightarrow> 64 word" where
  "getSize s = graph_size s"

text \<open>One pass through the body of the \<open>while\<close> loop of \<open>removeVertex\<close>, entered
  with \<open>old_vertex->edges.size() > 0\<close>.\<close>

definition removeVertex_body :: "vref \<Rightarrow> ('k, 'v, 'e) state \<Rightarrow> ('k, 'v, 'e) result" where
  "removeVertex_body old_vertex s =
     (case edges_at s old_vertex of
        None \<Rightarrow> Inl (InvalidPointer, s)
      | Some es \<Rightarrow>
      (let old_edge = last es
       in if \<not> old_edge < length (edge_heap s) then Inl (InvalidPointer, s)
       else
       (let connected_vertex =
              (if old_vertex = fst (edge_vertices (edge_heap s ! old_edge))
               then snd (edge_vertices (edge_heap s ! old_edge))
               else fst (edge_vertices (edge_heap s ! old_edge)));
            s1 = set_edges old_vertex (butlast es) s
        in case edges_at s1 connected_vertex of
          None \<Rightarrow> Inl (InvalidPointer, s1)
        | Some cs \<Rightarrow>
        (let i = find_ptr old_edge cs
         in if i < length cs then Inr (set_edges connected_vertex (swap_remove i cs) s1)
            else Inl (InvalidIterator, s1)))))"

text \<open>The length of \<open>old_vertex->edges\<close>, which every pass makes smaller.\<close>

definition degree :: "('k, 'v, 'e) state \<Rightarrow> vref \<Rightarrow> nat" where
  "degree s a = (case edges_at s a of None \<Rightarrow> 0 | Some es \<Rightarrow> length es)"

lemma edges_at_set_edges:
  "edges_at (set_edges a es s) b =
     (if b = a \<and> a < length (vertex_heap s) then Some es else edges_at s b)"
  by (simp add: edges_at_def set_edges_def)

lemma edges_at_SomeD: "edges_at s a = Some es \<Longrightarrow> a < length (vertex_heap s)"
  by (simp add: edges_at_def split: if_splits)

lemma length_swap_remove: "length (swap_remove i xs) = length xs - 1"
  by (simp add: swap_remove_def)

lemma removeVertex_body_degree:
  assumes "edges_at s a = Some es" and "0 < length es" and "removeVertex_body a s = Inr s'"
  shows "degree s' a < degree s a"
proof -
  define s1 where "s1 = set_edges a (butlast es) s"
  have a: "a < length (vertex_heap s)" using assms(1) by (rule edges_at_SomeD)
  have e1: "edges_at s1 a = Some (butlast es)"
    using a by (simp add: s1_def edges_at_set_edges)
  from assms(3) obtain c cs i where
    cs: "edges_at s1 c = Some cs" and s': "s' = set_edges c (swap_remove i cs) s1"
    by (auto simp: removeVertex_body_def assms(1) Let_def s1_def split: option.splits if_splits)
  have "degree s' a \<le> length (butlast es)"
    using e1 cs by (auto simp: s' degree_def edges_at_set_edges length_swap_remove)
  moreover have "degree s a = length es"
    using assms(1) by (simp add: degree_def)
  moreover have "length (butlast es) < length es"
    using assms(2) by simp
  ultimately show ?thesis by linarith
qed

function removeVertex_loop :: "vref \<Rightarrow> ('k, 'v, 'e) state \<Rightarrow> ('k, 'v, 'e) result" where
  "removeVertex_loop old_vertex s =
     (case edges_at s old_vertex of
        None \<Rightarrow> Inl (InvalidPointer, s)
      | Some es \<Rightarrow>
        if length es > 0 then
          (case removeVertex_body old_vertex s of
             Inl failure \<Rightarrow> Inl failure
           | Inr s' \<Rightarrow> removeVertex_loop old_vertex s')
        else Inr s)"
  by pat_completeness auto
termination
  by (relation "measure (\<lambda>(a, s). degree s a)") (auto dest: removeVertex_body_degree)

definition removeVertex :: "'k \<Rightarrow> ('k, 'v, 'e) state \<Rightarrow> ('k, 'v, 'e) result" where
  "removeVertex key s =
     (case map_of (graph_vertices s) key of
        None \<Rightarrow> Inl (OutOfRange, s)
      | Some old_vertex \<Rightarrow>
      (case removeVertex_loop old_vertex s of
        Inl failure \<Rightarrow> Inl failure
      | Inr s1 \<Rightarrow>
          Inr (s1\<lparr>graph_vertices := erase key (graph_vertices s1),
                  graph_size := graph_size s1 - 1\<rparr>)))"

definition removeEdge :: "'k \<Rightarrow> 'k \<Rightarrow> ('k, 'v, 'e) state \<Rightarrow> ('k, 'v, 'e) result" where
  "removeEdge key_0 key_1 s =
     (if \<not> key_0 \<noteq> key_1 then Inl (AssertionFailed, s)
      else case map_of (graph_vertices s) key_0 of
        None \<Rightarrow> Inl (OutOfRange, s)
      | Some vertex_0 \<Rightarrow>
      (case map_of (graph_vertices s) key_1 of
        None \<Rightarrow> Inl (OutOfRange, s)
      | Some vertex_1 \<Rightarrow>
      (case edges_at s vertex_0 of
        None \<Rightarrow> Inl (InvalidPointer, s)
      | Some es0 \<Rightarrow>
      (case scan_edges (edge_heap s) vertex_1 es0 of
        Inl err \<Rightarrow> Inl (err, s)
      | Inr i \<Rightarrow>
        if \<not> i \<noteq> length es0 then Inl (AssertionFailed, s)
        else
        (let old_edge = es0 ! i;
             s1 = set_edges vertex_0 (swap_remove i es0) s
         in case edges_at s1 vertex_1 of
           None \<Rightarrow> Inl (InvalidPointer, s1)
         | Some es1 \<Rightarrow>
           (let j = find_ptr old_edge es1
            in if j < length es1 then Inr (set_edges vertex_1 (swap_remove j es1) s1)
               else Inl (InvalidIterator, s1)))))))"

subsection \<open>The invariants\<close>

text \<open>An edge joins a vertex when one of its two ends is that vertex: the test of the
  scan of \<open>getEdge\<close> and \<open>removeEdge\<close>.\<close>

definition joins :: "'e Edge list \<Rightarrow> vref \<Rightarrow> eref \<Rightarrow> bool" where
  "joins eh v e \<longleftrightarrow> fst (edge_vertices (eh ! e)) = v \<or> snd (edge_vertices (eh ! e)) = v"

text \<open>The vertices of the graph: the addresses that the map holds, in its order.\<close>

definition vertex_refs :: "('k, 'v, 'e) state \<Rightarrow> vref list" where
  "vertex_refs s = map snd (graph_vertices s)"

text \<open>The edge collection of the vertex at an address, and the two ends of the edge at
  an address.\<close>

definition edges_of :: "('k, 'v, 'e) state \<Rightarrow> vref \<Rightarrow> eref list" where
  "edges_of s a = vertex_edges (vertex_heap s ! a)"

definition ends :: "('k, 'v, 'e) state \<Rightarrow> eref \<Rightarrow> vref \<times> vref" where
  "ends s e = edge_vertices (edge_heap s ! e)"

text \<open>
  What the pointers of a C++ state always satisfy: every key has a vertex object of its
  own (\<open>addVertex\<close> stores a pointer to a new object, and nothing else stores into the
  map), the pointers in the map and in the collections point to objects in the store,
  and a collection lists an edge at most once.
\<close>

definition store_ok :: "('k, 'v, 'e) state \<Rightarrow> bool" where
  "store_ok s \<longleftrightarrow>
     distinct (vertex_refs s) \<and>
     (\<forall>a\<in>set (vertex_refs s). a < length (vertex_heap s) \<and> distinct (edges_of s a) \<and>
        (\<forall>e\<in>set (edges_of s a). e < length (edge_heap s)))"

text \<open>Invariant 1: every edge in the collection of a vertex has that vertex as one of
  its two ends.\<close>

definition inv_incident :: "('k, 'v, 'e) state \<Rightarrow> bool" where
  "inv_incident s \<longleftrightarrow>
     (\<forall>a\<in>set (vertex_refs s). \<forall>e\<in>set (edges_of s a). a = fst (ends s e) \<or> a = snd (ends s e))"

text \<open>Invariant 2: every edge in a collection has both its ends in the graph and is in
  the collections of both (by invariant 1, of no other vertex).\<close>

definition inv_both_sides :: "('k, 'v, 'e) state \<Rightarrow> bool" where
  "inv_both_sides s \<longleftrightarrow>
     (\<forall>a\<in>set (vertex_refs s). \<forall>e\<in>set (edges_of s a).
        fst (ends s e) \<in> set (vertex_refs s) \<and> snd (ends s e) \<in> set (vertex_refs s) \<and>
        e \<in> set (edges_of s (fst (ends s e))) \<and> e \<in> set (edges_of s (snd (ends s e))))"

text \<open>Invariant 3: no edge in a collection has the same vertex at both ends.\<close>

definition inv_no_self_loop :: "('k, 'v, 'e) state \<Rightarrow> bool" where
  "inv_no_self_loop s \<longleftrightarrow>
     (\<forall>a\<in>set (vertex_refs s). \<forall>e\<in>set (edges_of s a). fst (ends s e) \<noteq> snd (ends s e))"

text \<open>Invariant 4: the counter equals the number of entries of the map, which C++
  has as a \<open>size_t\<close> too.\<close>

definition inv_count :: "('k, 'v, 'e) state \<Rightarrow> bool" where
  "inv_count s \<longleftrightarrow> graph_size s = of_nat (length (graph_vertices s))"

text \<open>Invariant 5: the keys of the map are unique.\<close>

definition inv_unique_keys :: "('k, 'v, 'e) state \<Rightarrow> bool" where
  "inv_unique_keys s \<longleftrightarrow> distinct (map fst (graph_vertices s))"

definition invariants :: "('k, 'v, 'e) state \<Rightarrow> bool" where
  "invariants s \<longleftrightarrow>
     store_ok s \<and> inv_incident s \<and> inv_both_sides s \<and> inv_no_self_loop s \<and>
     inv_count s \<and> inv_unique_keys s"

subsection \<open>Sequences of calls\<close>

text \<open>The public operations, as calls with their arguments. A vertex reference passed
  to \<open>getKey\<close> is an address.\<close>

datatype ('k, 'v, 'e) operation =
    AddVertex 'k 'v
  | AddEdge 'k 'k 'e
  | GetVertex 'k
  | GetEdge 'k 'k
  | GetKey vref
  | GetSize
  | RemoveVertex 'k
  | RemoveEdge 'k 'k

text \<open>One call. The queries return a value and leave the state as it is; only whether
  they fail matters here.\<close>

fun exec :: "('k, 'v, 'e) operation \<Rightarrow> ('k, 'v, 'e) state \<Rightarrow> ('k, 'v, 'e) result" where
  "exec (AddVertex key data) s = Inr (addVertex key data s)"
| "exec (AddEdge key_0 key_1 data) s = addEdge key_0 key_1 data s"
| "exec (GetVertex key) s = (case getVertex key s of Inl err \<Rightarrow> Inl (err, s) | Inr _ \<Rightarrow> Inr s)"
| "exec (GetEdge key_0 key_1) s =
     (case getEdge key_0 key_1 s of Inl err \<Rightarrow> Inl (err, s) | Inr _ \<Rightarrow> Inr s)"
| "exec (GetKey vertex) s = (case getKey vertex s of Inl err \<Rightarrow> Inl (err, s) | Inr _ \<Rightarrow> Inr s)"
| "exec GetSize s = Inr s"
| "exec (RemoveVertex key) s = removeVertex key s"
| "exec (RemoveEdge key_0 key_1) s = removeEdge key_0 key_1 s"

text \<open>There is an edge between the vertices stored at two keys: the collection of the
  first lists an edge that joins the second.\<close>

definition has_edge :: "('k, 'v, 'e) state \<Rightarrow> 'k \<Rightarrow> 'k \<Rightarrow> bool" where
  "has_edge s key_0 key_1 =
     (case map_of (graph_vertices s) key_0 of
        None \<Rightarrow> False
      | Some vertex_0 \<Rightarrow>
        (case map_of (graph_vertices s) key_1 of
           None \<Rightarrow> False
         | Some vertex_1 \<Rightarrow> list_ex (joins (edge_heap s) vertex_1) (edges_of s vertex_0)))"

text \<open>The preconditions that the documentation of each operation puts on its caller:
  \<open>addVertex\<close> takes a key that is not in the map, the others take keys that are, two
  different ones where there are two, and \<open>getEdge\<close> and \<open>removeEdge\<close> an existing
  edge; \<open>getKey\<close> takes a vertex of the graph.\<close>

fun pre :: "('k, 'v, 'e) operation \<Rightarrow> ('k, 'v, 'e) state \<Rightarrow> bool" where
  "pre (AddVertex key data) s = (map_of (graph_vertices s) key = None)"
| "pre (AddEdge key_0 key_1 data) s =
     (key_0 \<noteq> key_1 \<and> map_of (graph_vertices s) key_0 \<noteq> None \<and>
      map_of (graph_vertices s) key_1 \<noteq> None)"
| "pre (GetVertex key) s = (map_of (graph_vertices s) key \<noteq> None)"
| "pre (GetEdge key_0 key_1) s = (key_0 \<noteq> key_1 \<and> has_edge s key_0 key_1)"
| "pre (GetKey vertex) s = (vertex \<in> set (vertex_refs s))"
| "pre GetSize s = True"
| "pre (RemoveVertex key) s = (map_of (graph_vertices s) key \<noteq> None)"
| "pre (RemoveEdge key_0 key_1) s = (key_0 \<noteq> key_1 \<and> has_edge s key_0 key_1)"

text \<open>A sequence of calls, each made with its precondition: the state it ends in, or
  \<open>None\<close> when a call is made without its precondition or fails.\<close>

fun run :: "('k, 'v, 'e) operation list \<Rightarrow> ('k, 'v, 'e) state \<Rightarrow> ('k, 'v, 'e) state option" where
  "run [] s = Some s"
| "run (c # cs) s =
     (if pre c s then (case exec c s of Inl _ \<Rightarrow> None | Inr s' \<Rightarrow> run cs s') else None)"

subsection \<open>Example graphs\<close>

text \<open>Vertices \<open>A\<close> and \<open>B\<close> at the keys 0 and 1, no edge.\<close>

definition example_pair :: "(nat, string, string) state" where
  "example_pair =
     \<lparr>graph_size = 2, graph_vertices = [(0, 0), (1, 1)],
      vertex_heap = [\<lparr>vertex_edges = [], vertex_data = ''A''\<rparr>,
                     \<lparr>vertex_edges = [], vertex_data = ''B''\<rparr>],
      edge_heap = []\<rparr>"

text \<open>Vertices \<open>A\<close>, \<open>B\<close>, \<open>C\<close> at the keys 0, 1, 2, an edge \<open>x\<close> between \<open>A\<close> and
  \<open>B\<close> and an edge \<open>y\<close> between \<open>B\<close> and \<open>C\<close>.\<close>

definition example_path :: "(nat, string, string) state" where
  "example_path =
     \<lparr>graph_size = 3, graph_vertices = [(0, 0), (1, 1), (2, 2)],
      vertex_heap = [\<lparr>vertex_edges = [0], vertex_data = ''A''\<rparr>,
                     \<lparr>vertex_edges = [0, 1], vertex_data = ''B''\<rparr>,
                     \<lparr>vertex_edges = [1], vertex_data = ''C''\<rparr>],
      edge_heap = [\<lparr>edge_vertices = (0, 1), edge_data = ''x''\<rparr>,
                   \<lparr>edge_vertices = (1, 2), edge_data = ''y''\<rparr>]\<rparr>"

text \<open>Vertices \<open>A\<close> and \<open>B\<close> at the keys 0 and 1 and two parallel edges \<open>x\<close> and \<open>y\<close>
  between them.\<close>

definition example_parallel :: "(nat, string, string) state" where
  "example_parallel =
     \<lparr>graph_size = 2, graph_vertices = [(0, 0), (1, 1)],
      vertex_heap = [\<lparr>vertex_edges = [0, 1], vertex_data = ''A''\<rparr>,
                     \<lparr>vertex_edges = [0, 1], vertex_data = ''B''\<rparr>],
      edge_heap = [\<lparr>edge_vertices = (0, 1), edge_data = ''x''\<rparr>,
                   \<lparr>edge_vertices = (0, 1), edge_data = ''y''\<rparr>]\<rparr>"

text \<open>Vertices \<open>A\<close> and \<open>B\<close> at the keys 0 and 1 and one edge \<open>x\<close> between them.\<close>

definition example_edge :: "(nat, string, string) state" where
  "example_edge =
     \<lparr>graph_size = 2, graph_vertices = [(0, 0), (1, 1)],
      vertex_heap = [\<lparr>vertex_edges = [0], vertex_data = ''A''\<rparr>,
                     \<lparr>vertex_edges = [0], vertex_data = ''B''\<rparr>],
      edge_heap = [\<lparr>edge_vertices = (0, 1), edge_data = ''x''\<rparr>]\<rparr>"

text \<open>A state that breaks the invariants: the edge \<open>x\<close> is in the collection of \<open>A\<close>
  only.\<close>

definition example_one_sided :: "(nat, string, string) state" where
  "example_one_sided =
     \<lparr>graph_size = 2, graph_vertices = [(0, 0), (1, 1)],
      vertex_heap = [\<lparr>vertex_edges = [0], vertex_data = ''A''\<rparr>,
                     \<lparr>vertex_edges = [], vertex_data = ''B''\<rparr>],
      edge_heap = [\<lparr>edge_vertices = (0, 1), edge_data = ''x''\<rparr>]\<rparr>"

subsection \<open>Counting\<close>

text \<open>The vertices of the graph whose collections list a given edge.\<close>

definition listed_by :: "('k, 'v, 'e) state \<Rightarrow> eref \<Rightarrow> vref list" where
  "listed_by s e = filter (\<lambda>a. e \<in> set (edges_of s a)) (vertex_refs s)"

text \<open>The number of distinct edges in the collections of the vertices of the graph.\<close>

definition edge_count :: "('k, 'v, 'e) state \<Rightarrow> nat" where
  "edge_count s = length (remdups (concat (map (edges_of s) (vertex_refs s))))"

section \<open>Lists: swap-remove, find and scan\<close>

lemma swap_remove_snoc:
  "i \<le> length ys \<Longrightarrow> swap_remove i (ys @ [l]) = (if i = length ys then ys else ys[i := l])"
  by (simp add: swap_remove_def list_update_append butlast_append split: nat.splits)

lemma set_swap_remove:
  assumes "distinct xs" and "i < length xs"
  shows "set (swap_remove i xs) = set xs - {xs ! i}"
proof (cases xs rule: rev_cases)
  case Nil
  with assms show ?thesis by simp
next
  case (snoc ys l)
  with assms show ?thesis
    by (auto simp: swap_remove_snoc nth_append set_update_distinct)
qed

lemma distinct_swap_remove:
  assumes "distinct xs" and "i < length xs"
  shows "distinct (swap_remove i xs)"
proof (cases xs rule: rev_cases)
  case Nil
  with assms show ?thesis by simp
next
  case (snoc ys l)
  with assms show ?thesis
    by (auto simp: swap_remove_snoc intro: distinct_list_update)
qed

lemma find_ptr_le: "find_ptr e xs \<le> length xs"
  by (induction xs) auto

lemma find_ptr_found: "e \<in> set xs \<Longrightarrow> find_ptr e xs < length xs \<and> xs ! find_ptr e xs = e"
  by (induction xs) auto

lemma find_ptr_end: "e \<notin> set xs \<Longrightarrow> find_ptr e xs = length xs"
  by (induction xs) auto

lemma scan_edges_valid:
  assumes "\<forall>e\<in>set es. e < length eh"
  shows "\<exists>i. scan_edges eh v es = Inr i \<and> i \<le> length es \<and>
           (\<forall>j<i. \<not> joins eh v (es ! j)) \<and> (i < length es \<longrightarrow> joins eh v (es ! i))"
  using assms
proof (induction es)
  case Nil
  then show ?case by simp
next
  case (Cons e es)
  then obtain i where i: "scan_edges eh v es = Inr i" "i \<le> length es"
    "\<forall>j<i. \<not> joins eh v (es ! j)" "i < length es \<longrightarrow> joins eh v (es ! i)"
    by auto
  show ?case
  proof (cases "joins eh v e")
    case True
    with Cons.prems show ?thesis by (auto simp: joins_def)
  next
    case False
    have "\<forall>j<Suc i. \<not> joins eh v ((e # es) ! j)"
      using False i(3) by (auto simp: less_Suc_eq_0_disj)
    with False Cons.prems i show ?thesis by (auto simp: joins_def)
  qed
qed

section \<open>The invariants and the store\<close>

lemmas inv_defs = invariants_def store_ok_def inv_incident_def inv_both_sides_def
  inv_no_self_loop_def inv_count_def inv_unique_keys_def

lemma invariants_refs_distinct: "invariants s \<Longrightarrow> distinct (vertex_refs s)"
  by (simp add: inv_defs)

lemma invariants_keys_distinct: "invariants s \<Longrightarrow> distinct (map fst (graph_vertices s))"
  by (simp add: inv_defs)

lemma invariants_count: "invariants s \<Longrightarrow> graph_size s = of_nat (length (graph_vertices s))"
  by (simp add: inv_defs)

lemma invariants_ref:
  "invariants s \<Longrightarrow> a \<in> set (vertex_refs s) \<Longrightarrow>
     a < length (vertex_heap s) \<and> distinct (edges_of s a)"
  by (simp add: inv_defs)

lemma invariants_edge:
  "invariants s \<Longrightarrow> a \<in> set (vertex_refs s) \<Longrightarrow> e \<in> set (edges_of s a) \<Longrightarrow>
     e < length (edge_heap s) \<and> (a = fst (ends s e) \<or> a = snd (ends s e)) \<and>
     fst (ends s e) \<noteq> snd (ends s e) \<and>
     fst (ends s e) \<in> set (vertex_refs s) \<and> snd (ends s e) \<in> set (vertex_refs s) \<and>
     e \<in> set (edges_of s (fst (ends s e))) \<and> e \<in> set (edges_of s (snd (ends s e)))"
  unfolding inv_defs by blast

lemma invariantsI:
  assumes "distinct (vertex_refs s)" and "distinct (map fst (graph_vertices s))"
    and "graph_size s = of_nat (length (graph_vertices s))"
    and "\<And>a. a \<in> set (vertex_refs s) \<Longrightarrow> a < length (vertex_heap s) \<and> distinct (edges_of s a)"
    and "\<And>a e. a \<in> set (vertex_refs s) \<Longrightarrow> e \<in> set (edges_of s a) \<Longrightarrow>
     e < length (edge_heap s) \<and> (a = fst (ends s e) \<or> a = snd (ends s e)) \<and>
     fst (ends s e) \<noteq> snd (ends s e) \<and>
     fst (ends s e) \<in> set (vertex_refs s) \<and> snd (ends s e) \<in> set (vertex_refs s) \<and>
     e \<in> set (edges_of s (fst (ends s e))) \<and> e \<in> set (edges_of s (snd (ends s e)))"
  shows "invariants s"
  unfolding inv_defs using assms by blast

lemma edges_at_edges_of:
  "a < length (vertex_heap s) \<Longrightarrow> edges_at s a = Some (edges_of s a)"
  by (simp add: edges_at_def edges_of_def)

lemma map_of_ref: "map_of (graph_vertices s) k = Some a \<Longrightarrow> a \<in> set (vertex_refs s)"
  by (force simp: vertex_refs_def dest: map_of_SomeD)

lemma refs_differ:
  assumes "distinct (vertex_refs s)"
    and "map_of (graph_vertices s) k0 = Some a0" and "map_of (graph_vertices s) k1 = Some a1"
    and "k0 \<noteq> k1"
  shows "a0 \<noteq> a1"
proof
  assume "a0 = a1"
  have "(k0, a0) \<in> set (graph_vertices s)" "(k1, a1) \<in> set (graph_vertices s)"
    using assms(2,3) by (auto dest: map_of_SomeD)
  moreover have "inj_on snd (set (graph_vertices s))"
    using assms(1) by (simp add: vertex_refs_def distinct_map)
  ultimately have "(k0, a0) = (k1, a1)"
    using \<open>a0 = a1\<close> inj_onD [of snd "set (graph_vertices s)" "(k0, a0)" "(k1, a1)"] by simp
  with assms(4) show False by simp
qed

text \<open>The effect of \<open>set_edges\<close> on the views.\<close>

lemma set_edges_frame:
  "graph_vertices (set_edges a es s) = graph_vertices s"
  "graph_size (set_edges a es s) = graph_size s"
  "edge_heap (set_edges a es s) = edge_heap s"
  "length (vertex_heap (set_edges a es s)) = length (vertex_heap s)"
  "vertex_refs (set_edges a es s) = vertex_refs s"
  "ends (set_edges a es s) e = ends s e"
  by (simp_all add: set_edges_def vertex_refs_def ends_def)

lemma edges_of_set_edges:
  "a < length (vertex_heap s) \<Longrightarrow>
     edges_of (set_edges a es s) b = (if b = a then es else edges_of s b)"
  by (simp add: set_edges_def edges_of_def)

text \<open>Taking one edge out of every collection that lists it keeps the invariants.\<close>

lemma invariants_remove:
  assumes inv: "invariants s"
    and frame: "graph_vertices s' = graph_vertices s" "graph_size s' = graph_size s"
      "edge_heap s' = edge_heap s" "length (vertex_heap s') = length (vertex_heap s)"
    and rem: "\<And>a. a \<in> set (vertex_refs s) \<Longrightarrow>
       set (edges_of s' a) = set (edges_of s a) - {e} \<and> distinct (edges_of s' a)"
  shows "invariants s'"
proof (rule invariantsI)
  have refs: "vertex_refs s' = vertex_refs s"
    by (simp add: vertex_refs_def frame)
  have ends: "\<And>x. ends s' x = ends s x"
    by (simp add: ends_def frame)
  show "distinct (vertex_refs s')"
    using inv by (simp add: refs invariants_refs_distinct)
  show "distinct (map fst (graph_vertices s'))"
    using inv by (simp add: frame invariants_keys_distinct)
  show "graph_size s' = of_nat (length (graph_vertices s'))"
    using inv by (simp add: frame invariants_count)
  show "a < length (vertex_heap s') \<and> distinct (edges_of s' a)"
    if "a \<in> set (vertex_refs s')" for a
    using that invariants_ref [OF inv, of a] rem [of a] by (simp add: refs frame)
  show "x < length (edge_heap s') \<and> (a = fst (ends s' x) \<or> a = snd (ends s' x)) \<and>
     fst (ends s' x) \<noteq> snd (ends s' x) \<and>
     fst (ends s' x) \<in> set (vertex_refs s') \<and> snd (ends s' x) \<in> set (vertex_refs s') \<and>
     x \<in> set (edges_of s' (fst (ends s' x))) \<and> x \<in> set (edges_of s' (snd (ends s' x)))"
    if a: "a \<in> set (vertex_refs s')" and x: "x \<in> set (edges_of s' a)" for a x
  proof -
    have a': "a \<in> set (vertex_refs s)" using a by (simp add: refs)
    have x': "x \<in> set (edges_of s a)" and ne: "x \<noteq> e"
      using x rem [OF a'] by auto
    note E = invariants_edge [OF inv a' x']
    have "x \<in> set (edges_of s' (fst (ends s x)))" "x \<in> set (edges_of s' (snd (ends s x)))"
      using E ne rem [of "fst (ends s x)"] rem [of "snd (ends s x)"] by auto
    with E show ?thesis by (simp add: refs ends frame)
  qed
qed

section \<open>Adding\<close>

text \<open>\<open>addVertex\<close> with a new key and \<open>addEdge\<close> between two different keys of the
  map keep the invariants.\<close>

lemma addVertex_frame:
  assumes "map_of (graph_vertices s) key = None"
  shows "graph_vertices (addVertex key d s) = graph_vertices s @ [(key, length (vertex_heap s))]"
    and "graph_size (addVertex key d s) = graph_size s + 1"
    and "edge_heap (addVertex key d s) = edge_heap s"
    and "vertex_heap (addVertex key d s) = vertex_heap s @ [\<lparr>vertex_edges = [], vertex_data = d\<rparr>]"
  using assms by (simp_all add: addVertex_def insert_pair_def Let_def)

lemma addVertex_invariants:
  assumes inv: "invariants s" and fresh: "map_of (graph_vertices s) key = None"
  shows "invariants (addVertex key d s)"
proof (rule invariantsI)
  let ?s = "addVertex key d s"
  let ?n = "length (vertex_heap s)"
  note F = addVertex_frame [OF fresh, of d]
  have refs: "vertex_refs ?s = vertex_refs s @ [?n]"
    by (simp add: vertex_refs_def F)
  have old: "a < ?n" if "a \<in> set (vertex_refs s)" for a
    using invariants_ref [OF inv that] by simp
  have eo: "edges_of ?s a = (if a = ?n then [] else edges_of s a)" if "a \<le> ?n" for a
    using that by (auto simp: edges_of_def F nth_append)
  have ends: "ends ?s x = ends s x" for x
    by (simp add: ends_def F)
  show "distinct (vertex_refs ?s)"
    using invariants_refs_distinct [OF inv] old by (auto simp: refs)
  have "key \<notin> fst ` set (graph_vertices s)"
    using fresh by (simp add: map_of_eq_None_iff)
  then show "distinct (map fst (graph_vertices ?s))"
    using invariants_keys_distinct [OF inv] by (simp add: F)
  show "graph_size ?s = of_nat (length (graph_vertices ?s))"
    using invariants_count [OF inv] by (simp add: F)
  show "a < length (vertex_heap ?s) \<and> distinct (edges_of ?s a)"
    if "a \<in> set (vertex_refs ?s)" for a
  proof (cases "a = ?n")
    case True
    then show ?thesis by (simp add: eo F)
  next
    case False
    with that have a: "a \<in> set (vertex_refs s)" by (simp add: refs)
    from old [OF a] invariants_ref [OF inv a] show ?thesis by (simp add: eo F)
  qed
  show "x < length (edge_heap ?s) \<and> (a = fst (ends ?s x) \<or> a = snd (ends ?s x)) \<and>
     fst (ends ?s x) \<noteq> snd (ends ?s x) \<and>
     fst (ends ?s x) \<in> set (vertex_refs ?s) \<and> snd (ends ?s x) \<in> set (vertex_refs ?s) \<and>
     x \<in> set (edges_of ?s (fst (ends ?s x))) \<and> x \<in> set (edges_of ?s (snd (ends ?s x)))"
    if a: "a \<in> set (vertex_refs ?s)" and x: "x \<in> set (edges_of ?s a)" for a x
  proof -
    have an: "a \<noteq> ?n" using a x old by (auto simp: refs eo)
    with a have a': "a \<in> set (vertex_refs s)" by (simp add: refs)
    have x': "x \<in> set (edges_of s a)" using x an old [OF a'] by (simp add: eo)
    note E = invariants_edge [OF inv a' x']
    have "fst (ends s x) < ?n" "snd (ends s x) < ?n"
      using E old by auto
    with E show ?thesis by (simp add: ends refs eo F)
  qed
qed

lemma addEdge_success:
  assumes "k0 \<noteq> k1"
    and "map_of (graph_vertices s) k0 = Some v0" and "map_of (graph_vertices s) k1 = Some v1"
    and "v0 < length (vertex_heap s)" and "v1 < length (vertex_heap s)" and "v0 \<noteq> v1"
  shows "\<exists>s'. addEdge k0 k1 d s = Inr s' \<and>
     graph_vertices s' = graph_vertices s \<and> graph_size s' = graph_size s \<and>
     edge_heap s' = edge_heap s @ [\<lparr>edge_vertices = (v0, v1), edge_data = d\<rparr>] \<and>
     length (vertex_heap s') = length (vertex_heap s) \<and>
     (\<forall>b. edges_of s' b =
        (if b = v0 \<or> b = v1 then edges_of s b @ [length (edge_heap s)] else edges_of s b))"
  using assms
  by (auto simp: addEdge_def Let_def edges_at_def set_edges_def edges_of_def nth_list_update)

lemma addEdge_invariants:
  assumes inv: "invariants s" and ne: "k0 \<noteq> k1"
    and k0: "map_of (graph_vertices s) k0 = Some v0"
    and k1: "map_of (graph_vertices s) k1 = Some v1"
    and res: "addEdge k0 k1 d s = Inr s'"
  shows "invariants s'"
proof (rule invariantsI)
  let ?n = "length (edge_heap s)"
  have r0: "v0 \<in> set (vertex_refs s)" and r1: "v1 \<in> set (vertex_refs s)"
    using k0 k1 by (auto dest: map_of_ref)
  have v01: "v0 \<noteq> v1"
    using refs_differ [OF invariants_refs_distinct [OF inv] k0 k1 ne] .
  from addEdge_success [OF ne k0 k1 _ _ v01, of d] invariants_ref [OF inv r0]
    invariants_ref [OF inv r1] res
  have F: "graph_vertices s' = graph_vertices s" "graph_size s' = graph_size s"
     "edge_heap s' = edge_heap s @ [\<lparr>edge_vertices = (v0, v1), edge_data = d\<rparr>]"
     "length (vertex_heap s') = length (vertex_heap s)"
    and eo: "\<And>b. edges_of s' b =
        (if b = v0 \<or> b = v1 then edges_of s b @ [?n] else edges_of s b)"
    by auto
  have refs: "vertex_refs s' = vertex_refs s"
    by (simp add: vertex_refs_def F)
  have ends: "ends s' x = (if x = ?n then (v0, v1) else ends s x)" if "x \<le> ?n" for x
    using that by (auto simp: ends_def F nth_append)
  have old: "x < ?n" if "a \<in> set (vertex_refs s)" "x \<in> set (edges_of s a)" for a x
    using invariants_edge [OF inv that] by simp
  show "distinct (vertex_refs s')"
    using inv by (simp add: refs invariants_refs_distinct)
  show "distinct (map fst (graph_vertices s'))"
    using inv by (simp add: F invariants_keys_distinct)
  show "graph_size s' = of_nat (length (graph_vertices s'))"
    using inv by (simp add: F invariants_count)
  show "a < length (vertex_heap s') \<and> distinct (edges_of s' a)"
    if "a \<in> set (vertex_refs s')" for a
  proof -
    have a: "a \<in> set (vertex_refs s)" using that by (simp add: refs)
    have "?n \<notin> set (edges_of s a)" using old [OF a] by auto
    with invariants_ref [OF inv a] show ?thesis by (simp add: F eo)
  qed
  show "x < length (edge_heap s') \<and> (a = fst (ends s' x) \<or> a = snd (ends s' x)) \<and>
     fst (ends s' x) \<noteq> snd (ends s' x) \<and>
     fst (ends s' x) \<in> set (vertex_refs s') \<and> snd (ends s' x) \<in> set (vertex_refs s') \<and>
     x \<in> set (edges_of s' (fst (ends s' x))) \<and> x \<in> set (edges_of s' (snd (ends s' x)))"
    if a: "a \<in> set (vertex_refs s')" and x: "x \<in> set (edges_of s' a)" for a x
  proof (cases "x = ?n")
    case True
    have "a = v0 \<or> a = v1"
    proof (rule ccontr)
      assume "\<not> ?thesis"
      then have "x \<in> set (edges_of s a)" using x by (simp add: eo)
      with old [of a x] a True show False by (simp add: refs)
    qed
    with True r0 r1 v01 show ?thesis by (auto simp: ends refs eo F)
  next
    case False
    have a': "a \<in> set (vertex_refs s)" using a by (simp add: refs)
    have x': "x \<in> set (edges_of s a)" using x False by (auto simp: eo split: if_splits)
    note E = invariants_edge [OF inv a' x']
    with False show ?thesis by (auto simp: ends refs eo F)
  qed
qed

section \<open>Removing an edge\<close>

text \<open>Under the invariants the scan of \<open>removeEdge\<close> decides whether the call fails
  its assertion; when it does not, the edge found is in the second collection too.\<close>

lemma joins_ends: "joins (edge_heap s) v e \<longleftrightarrow> fst (ends s e) = v \<or> snd (ends s e) = v"
  by (simp add: joins_def ends_def)

lemma invariants_scan:
  assumes inv: "invariants s" and a: "a \<in> set (vertex_refs s)"
  shows "\<exists>i. scan_edges (edge_heap s) v (edges_of s a) = Inr i \<and> i \<le> length (edges_of s a) \<and>
           (\<forall>j<i. \<not> joins (edge_heap s) v (edges_of s a ! j)) \<and>
           (i < length (edges_of s a) \<longrightarrow> joins (edge_heap s) v (edges_of s a ! i))"
  using invariants_edge [OF inv a] by (intro scan_edges_valid) blast

text \<open>An edge in the collection of \<open>a\<close> that joins another vertex \<open>b\<close> has exactly
  these two ends, and \<open>b\<close> lists it too.\<close>

lemma invariants_joined:
  assumes inv: "invariants s" and a: "a \<in> set (vertex_refs s)"
    and e: "e \<in> set (edges_of s a)" and j: "joins (edge_heap s) b e" and ab: "a \<noteq> b"
  shows "b \<in> set (vertex_refs s)" and "e \<in> set (edges_of s b)"
    and "{fst (ends s e), snd (ends s e)} = {a, b}"
  using invariants_edge [OF inv a e] j ab by (auto simp: joins_ends)

lemma invariants_listed_only_at_ends:
  assumes inv: "invariants s" and c: "c \<in> set (vertex_refs s)" and e: "e \<in> set (edges_of s c)"
  shows "c = fst (ends s e) \<or> c = snd (ends s e)"
  using invariants_edge [OF inv c e] by simp

lemma removeEdge_no_edge:
  assumes "k0 \<noteq> k1"
    and "map_of (graph_vertices s) k0 = Some v0" and "map_of (graph_vertices s) k1 = Some v1"
    and "v0 < length (vertex_heap s)"
    and "scan_edges (edge_heap s) v1 (edges_of s v0) = Inr (length (edges_of s v0))"
  shows "removeEdge k0 k1 s = Inl (AssertionFailed, s)"
  using assms by (simp add: removeEdge_def edges_at_edges_of)

lemma removeEdge_eval:
  assumes "k0 \<noteq> k1"
    and "map_of (graph_vertices s) k0 = Some v0" and "map_of (graph_vertices s) k1 = Some v1"
    and "v0 < length (vertex_heap s)" and "v1 < length (vertex_heap s)" and "v0 \<noteq> v1"
    and "scan_edges (edge_heap s) v1 (edges_of s v0) = Inr i" and "i < length (edges_of s v0)"
    and "edges_of s v0 ! i \<in> set (edges_of s v1)"
  shows "removeEdge k0 k1 s =
     Inr (set_edges v1 (swap_remove (find_ptr (edges_of s v0 ! i) (edges_of s v1)) (edges_of s v1))
           (set_edges v0 (swap_remove i (edges_of s v0)) s))"
proof -
  let ?s1 = "set_edges v0 (swap_remove i (edges_of s v0)) s"
  have "edges_at ?s1 v1 = Some (edges_of s v1)"
    using assms(4-6) by (simp add: edges_at_set_edges edges_at_edges_of)
  moreover have "find_ptr (edges_of s v0 ! i) (edges_of s v1) < length (edges_of s v1)"
    using assms(9) by (simp add: find_ptr_found)
  ultimately show ?thesis
    using assms(1-4,7,8) by (simp add: removeEdge_def edges_at_edges_of Let_def)
qed

text \<open>What a successful \<open>removeEdge\<close> does, under the invariants.\<close>

lemma removeEdge_success:
  assumes inv: "invariants s" and ne: "k0 \<noteq> k1"
    and k0: "map_of (graph_vertices s) k0 = Some v0"
    and k1: "map_of (graph_vertices s) k1 = Some v1"
    and scan: "scan_edges (edge_heap s) v1 (edges_of s v0) = Inr i"
    and i: "i < length (edges_of s v0)"
  shows "\<exists>s'. removeEdge k0 k1 s = Inr s' \<and> invariants s' \<and>
     graph_vertices s' = graph_vertices s \<and> graph_size s' = graph_size s \<and>
     edge_heap s' = edge_heap s \<and> length (vertex_heap s') = length (vertex_heap s) \<and>
     edges_of s v0 ! i \<in> set (edges_of s v1) \<and>
     edges_of s' v0 = swap_remove i (edges_of s v0) \<and>
     edges_of s' v1 =
       swap_remove (find_ptr (edges_of s v0 ! i) (edges_of s v1)) (edges_of s v1) \<and>
     (\<forall>b. b \<noteq> v0 \<and> b \<noteq> v1 \<longrightarrow> edges_of s' b = edges_of s b) \<and>
     (\<forall>a\<in>set (vertex_refs s). set (edges_of s' a) = set (edges_of s a) - {edges_of s v0 ! i})"
proof -
  let ?e = "edges_of s v0 ! i"
  let ?j = "find_ptr ?e (edges_of s v1)"
  let ?s1 = "set_edges v0 (swap_remove i (edges_of s v0)) s"
  let ?s' = "set_edges v1 (swap_remove ?j (edges_of s v1)) ?s1"
  have r0: "v0 \<in> set (vertex_refs s)" and r1: "v1 \<in> set (vertex_refs s)"
    using k0 k1 by (auto dest: map_of_ref)
  have v01: "v0 \<noteq> v1"
    using refs_differ [OF invariants_refs_distinct [OF inv] k0 k1 ne] .
  have l0: "v0 < length (vertex_heap s)" and d0: "distinct (edges_of s v0)"
    using invariants_ref [OF inv r0] by auto
  have l1: "v1 < length (vertex_heap s)" and d1: "distinct (edges_of s v1)"
    using invariants_ref [OF inv r1] by auto
  have e0: "?e \<in> set (edges_of s v0)" using i by simp
  have "joins (edge_heap s) v1 ?e"
    using invariants_scan [OF inv r0, of v1] scan i by auto
  note J = invariants_joined [OF inv r0 e0 this v01]
  have e1: "?e \<in> set (edges_of s v1)" by (rule J(2))
  have j: "?j < length (edges_of s v1)" "edges_of s v1 ! ?j = ?e"
    using find_ptr_found [OF e1] by auto
  have res: "removeEdge k0 k1 s = Inr ?s'"
    by (rule removeEdge_eval [OF ne k0 k1 l0 l1 v01 scan i e1])
  have eo: "edges_of ?s' b =
      (if b = v1 then swap_remove ?j (edges_of s v1)
       else if b = v0 then swap_remove i (edges_of s v0) else edges_of s b)" for b
    using l0 l1 by (simp add: edges_of_set_edges set_edges_frame)
  have rem: "set (edges_of ?s' a) = set (edges_of s a) - {?e} \<and> distinct (edges_of ?s' a)"
    if a: "a \<in> set (vertex_refs s)" for a
  proof -
    consider "a = v0" | "a = v1" | "a \<noteq> v0" "a \<noteq> v1" by blast
    then show ?thesis
    proof cases
      case 1
      with v01 d0 i show ?thesis
        by (simp add: eo set_swap_remove distinct_swap_remove)
    next
      case 2
      with d1 j show ?thesis
        by (simp add: eo set_swap_remove distinct_swap_remove)
    next
      case 3
      have "?e \<notin> set (edges_of s a)"
      proof
        assume "?e \<in> set (edges_of s a)"
        from invariants_listed_only_at_ends [OF inv a this] J(3) 3 show False by auto
      qed
      with 3 invariants_ref [OF inv a] show ?thesis by (simp add: eo)
    qed
  qed
  have "invariants ?s'"
    by (rule invariants_remove [OF inv _ _ _ _ rem]) (simp_all add: set_edges_frame)
  with res e1 v01 rem show ?thesis
    by (simp add: eo set_edges_frame)
qed

section \<open>Removing a vertex\<close>

text \<open>One pass of the loop removes the last edge from both sides and keeps the
  invariants; the loop, by induction on the length of the collection, empties it.\<close>

lemma removeVertex_body_success:
  assumes inv: "invariants s" and a: "a \<in> set (vertex_refs s)" and ne: "edges_of s a \<noteq> []"
  shows "\<exists>s'. removeVertex_body a s = Inr s' \<and> invariants s' \<and>
     graph_vertices s' = graph_vertices s \<and> graph_size s' = graph_size s \<and>
     edge_heap s' = edge_heap s \<and> length (vertex_heap s') = length (vertex_heap s) \<and>
     edges_of s' a = butlast (edges_of s a) \<and>
     (\<forall>b\<in>set (vertex_refs s). set (edges_of s' b) = set (edges_of s b) - {last (edges_of s a)})"
proof -
  let ?es = "edges_of s a"
  let ?e = "last ?es"
  define c where "c = (if a = fst (ends s ?e) then snd (ends s ?e) else fst (ends s ?e))"
  let ?j = "find_ptr ?e (edges_of s c)"
  let ?s1 = "set_edges a (butlast ?es) s"
  let ?s' = "set_edges c (swap_remove ?j (edges_of s c)) ?s1"
  have la: "a < length (vertex_heap s)" and da: "distinct ?es"
    using invariants_ref [OF inv a] by auto
  have ea: "?e \<in> set ?es" using ne by simp
  note E = invariants_edge [OF inv a ea]
  have ca: "c \<noteq> a" and rc: "c \<in> set (vertex_refs s)" and ec: "?e \<in> set (edges_of s c)"
    and ends: "{fst (ends s ?e), snd (ends s ?e)} = {a, c}"
    using E by (auto simp: c_def)
  have lc: "c < length (vertex_heap s)" and dc: "distinct (edges_of s c)"
    using invariants_ref [OF inv rc] by auto
  have j: "?j < length (edges_of s c)" "edges_of s c ! ?j = ?e"
    using find_ptr_found [OF ec] by auto
  have "edges_at ?s1 c = Some (edges_of s c)"
    using ca lc by (simp add: edges_at_set_edges edges_at_edges_of)
  moreover have "c = (if a = fst (edge_vertices (edge_heap s ! ?e))
                      then snd (edge_vertices (edge_heap s ! ?e))
                      else fst (edge_vertices (edge_heap s ! ?e)))"
    by (simp add: c_def ends_def)
  ultimately have res: "removeVertex_body a s = Inr ?s'"
    using la E j(1)
    by (simp add: removeVertex_body_def edges_at_edges_of Let_def)
  have eo: "edges_of ?s' b =
      (if b = c then swap_remove ?j (edges_of s c)
       else if b = a then butlast ?es else edges_of s b)" for b
    using la lc by (simp add: edges_of_set_edges set_edges_frame)
  have bl: "set (butlast ?es) = set ?es - {?e}"
    using da ne by (cases ?es rule: rev_cases) auto
  have rem: "set (edges_of ?s' b) = set (edges_of s b) - {?e} \<and> distinct (edges_of ?s' b)"
    if b: "b \<in> set (vertex_refs s)" for b
  proof -
    consider "b = c" | "b = a" | "b \<noteq> a" "b \<noteq> c" by blast
    then show ?thesis
    proof cases
      case 1
      with dc j show ?thesis
        by (simp add: eo set_swap_remove distinct_swap_remove)
    next
      case 2
      with ca da bl show ?thesis
        by (simp add: eo distinct_butlast)
    next
      case 3
      have "?e \<notin> set (edges_of s b)"
      proof
        assume "?e \<in> set (edges_of s b)"
        from invariants_listed_only_at_ends [OF inv b this] ends 3 show False by auto
      qed
      with 3 invariants_ref [OF inv b] show ?thesis by (simp add: eo)
    qed
  qed
  have "invariants ?s'"
    by (rule invariants_remove [OF inv _ _ _ _ rem]) (simp_all add: set_edges_frame)
  with res ca rem show ?thesis
    by (simp add: eo set_edges_frame)
qed

lemma removeVertex_loop_success:
  assumes "invariants s" and "a \<in> set (vertex_refs s)"
  shows "\<exists>s'. removeVertex_loop a s = Inr s' \<and> invariants s' \<and>
     graph_vertices s' = graph_vertices s \<and> graph_size s' = graph_size s \<and>
     edge_heap s' = edge_heap s \<and> length (vertex_heap s') = length (vertex_heap s) \<and>
     edges_of s' a = [] \<and>
     (\<forall>b\<in>set (vertex_refs s). b \<noteq> a \<longrightarrow>
        set (edges_of s' b) = set (edges_of s b) - set (edges_of s a))"
  using assms
proof (induction "length (edges_of s a)" arbitrary: s)
  case 0
  then have "a < length (vertex_heap s)" using invariants_ref by blast
  with 0 show ?case
    by (simp add: removeVertex_loop.simps [of a s] edges_at_edges_of)
next
  case (Suc n)
  then have la: "a < length (vertex_heap s)" using invariants_ref by blast
  have ne: "edges_of s a \<noteq> []" using Suc.hyps(2) by auto
  from removeVertex_body_success [OF Suc.prems ne] obtain s1 where
    body: "removeVertex_body a s = Inr s1" and inv1: "invariants s1"
    and F1: "graph_vertices s1 = graph_vertices s" "graph_size s1 = graph_size s"
      "edge_heap s1 = edge_heap s" "length (vertex_heap s1) = length (vertex_heap s)"
    and a1: "edges_of s1 a = butlast (edges_of s a)"
    and b1: "\<forall>b\<in>set (vertex_refs s). set (edges_of s1 b) = set (edges_of s b) - {last (edges_of s a)}"
    by blast
  have refs1: "vertex_refs s1 = vertex_refs s" by (simp add: vertex_refs_def F1)
  have n: "n = length (edges_of s1 a)" using Suc.hyps(2) by (simp add: a1)
  from Suc.hyps(1) [OF n inv1] Suc.prems(2) obtain s' where
    loop: "removeVertex_loop a s1 = Inr s'" and inv': "invariants s'"
    and F': "graph_vertices s' = graph_vertices s1" "graph_size s' = graph_size s1"
      "edge_heap s' = edge_heap s1" "length (vertex_heap s') = length (vertex_heap s1)"
    and a': "edges_of s' a = []"
    and b': "\<forall>b\<in>set (vertex_refs s1). b \<noteq> a \<longrightarrow>
        set (edges_of s' b) = set (edges_of s1 b) - set (edges_of s1 a)"
    unfolding refs1 by blast
  have split: "set (edges_of s a) = insert (last (edges_of s a)) (set (butlast (edges_of s a)))"
    using ne by (cases "edges_of s a" rule: rev_cases) auto
  have "removeVertex_loop a s = Inr s'"
    using la ne body loop by (simp add: removeVertex_loop.simps [of a s] edges_at_edges_of)
  moreover have "set (edges_of s' b) = set (edges_of s b) - set (edges_of s a)"
    if "b \<in> set (vertex_refs s)" "b \<noteq> a" for b
    using that b1 b' by (subst split) (auto simp: refs1 a1)
  ultimately show ?case
    using inv' F' F1 a' by simp
qed

lemma length_erase:
  "distinct (map fst vs) \<Longrightarrow> map_of vs k = Some a \<Longrightarrow> Suc (length (erase k vs)) = length vs"
proof (induction vs)
  case Nil
  then show ?case by simp
next
  case (Cons p vs)
  show ?case
  proof (cases "fst p = k")
    case True
    with Cons.prems have "k \<notin> fst ` set vs" by auto
    then have "filter (\<lambda>p. fst p \<noteq> k) vs = vs" by (auto simp: filter_id_conv)
    with True show ?thesis by (simp add: erase_def)
  next
    case False
    with Cons show ?thesis by (cases p) (auto simp: erase_def)
  qed
qed

lemma set_refs_erase:
  assumes dk: "distinct (map fst vs)" and dr: "distinct (map snd vs)" and k: "map_of vs k = Some a"
  shows "set (map snd (erase k vs)) = set (map snd vs) - {a}"
proof -
  have inj: "inj_on snd (set vs)" using dr by (simp add: distinct_map)
  have ka: "(k, a) \<in> set vs" using k by (rule map_of_SomeD)
  have "snd p \<noteq> a" if "p \<in> set vs" "fst p \<noteq> k" for p
  proof
    assume "snd p = a"
    then have "snd p = snd (k, a)" by simp
    from inj_onD [OF inj this that(1) ka] that(2) show False by simp
  qed
  moreover have "fst p \<noteq> k" if "p \<in> set vs" "snd p \<noteq> a" for p
  proof
    assume "fst p = k"
    with that(1) have "(k, snd p) \<in> set vs" by (cases p) auto
    with dk have "map_of vs k = Some (snd p)" by (rule map_of_is_SomeI)
    with k that(2) show False by simp
  qed
  ultimately show ?thesis by (force simp: erase_def)
qed

lemma map_of_erase: "map_of (erase k vs) k = None"
  by (auto simp: erase_def map_of_eq_None_iff)

lemma removeVertex_success:
  assumes inv: "invariants s" and k: "map_of (graph_vertices s) k = Some a"
  shows "\<exists>s'. removeVertex k s = Inr s' \<and> invariants s' \<and>
     graph_vertices s' = erase k (graph_vertices s) \<and> graph_size s' = graph_size s - 1 \<and>
     edge_heap s' = edge_heap s \<and> length (vertex_heap s') = length (vertex_heap s) \<and>
     set (vertex_refs s') = set (vertex_refs s) - {a} \<and>
     edges_of s' a = [] \<and>
     (\<forall>b\<in>set (vertex_refs s'). set (edges_of s' b) = set (edges_of s b) - set (edges_of s a))"
proof -
  have ra: "a \<in> set (vertex_refs s)" using k by (rule map_of_ref)
  from removeVertex_loop_success [OF inv ra] obtain s1 where
    loop: "removeVertex_loop a s = Inr s1" and inv1: "invariants s1"
    and F1: "graph_vertices s1 = graph_vertices s" "graph_size s1 = graph_size s"
      "edge_heap s1 = edge_heap s" "length (vertex_heap s1) = length (vertex_heap s)"
    and a1: "edges_of s1 a = []"
    and b1: "\<forall>b\<in>set (vertex_refs s). b \<noteq> a \<longrightarrow>
        set (edges_of s1 b) = set (edges_of s b) - set (edges_of s a)"
    by blast
  define s' where "s' = s1\<lparr>graph_vertices := erase k (graph_vertices s1),
                           graph_size := graph_size s1 - 1\<rparr>"
  have res: "removeVertex k s = Inr s'"
    using k loop by (simp add: removeVertex_def s'_def)
  have refs1: "vertex_refs s1 = vertex_refs s" by (simp add: vertex_refs_def F1)
  have F': "graph_vertices s' = erase k (graph_vertices s)" "graph_size s' = graph_size s - 1"
      "edge_heap s' = edge_heap s" "length (vertex_heap s') = length (vertex_heap s)"
    by (simp_all add: s'_def F1)
  have eo: "edges_of s' b = edges_of s1 b" for b by (simp add: s'_def edges_of_def)
  have ends: "ends s' x = ends s1 x" for x by (simp add: s'_def ends_def)
  have dk: "distinct (map fst (graph_vertices s))" and dr: "distinct (map snd (graph_vertices s))"
    using invariants_keys_distinct [OF inv] invariants_refs_distinct [OF inv]
    by (simp_all add: vertex_refs_def)
  have refs': "set (vertex_refs s') = set (vertex_refs s) - {a}"
    using set_refs_erase [OF dk dr k] by (simp add: vertex_refs_def F')
  have "invariants s'"
  proof (rule invariantsI)
    show "distinct (vertex_refs s')"
      using dr by (simp add: vertex_refs_def F' erase_def distinct_map_filter)
    show "distinct (map fst (graph_vertices s'))"
      using dk by (simp add: F' erase_def distinct_map_filter)
    have "graph_size s = of_nat (Suc (length (erase k (graph_vertices s))))"
      using invariants_count [OF inv] length_erase [OF dk k] by simp
    then show "graph_size s' = of_nat (length (graph_vertices s'))"
      by (simp add: F')
    show "b < length (vertex_heap s') \<and> distinct (edges_of s' b)"
      if "b \<in> set (vertex_refs s')" for b
      using that invariants_ref [OF inv1, of b] by (simp add: refs' refs1 eo F' F1)
    show "x < length (edge_heap s') \<and> (b = fst (ends s' x) \<or> b = snd (ends s' x)) \<and>
       fst (ends s' x) \<noteq> snd (ends s' x) \<and>
       fst (ends s' x) \<in> set (vertex_refs s') \<and> snd (ends s' x) \<in> set (vertex_refs s') \<and>
       x \<in> set (edges_of s' (fst (ends s' x))) \<and> x \<in> set (edges_of s' (snd (ends s' x)))"
      if b: "b \<in> set (vertex_refs s')" and x: "x \<in> set (edges_of s' b)" for b x
    proof -
      have b1: "b \<in> set (vertex_refs s1)" using b by (simp add: refs' refs1)
      have x1: "x \<in> set (edges_of s1 b)" using x by (simp add: eo)
      note E = invariants_edge [OF inv1 b1 x1]
      have "fst (ends s1 x) \<noteq> a" "snd (ends s1 x) \<noteq> a"
        using E a1 by auto
      with E show ?thesis by (simp add: ends eo refs' refs1 F' F1)
    qed
  qed
  moreover have "set (edges_of s' b) = set (edges_of s b) - set (edges_of s a)"
    if "b \<in> set (vertex_refs s')" for b
    using that b1 by (simp add: refs' eo)
  ultimately show ?thesis
    using res F' refs' a1 by (simp add: eo)
qed

section \<open>Queries and sequences of calls\<close>

lemma scan_vertices_found:
  assumes "distinct (map snd vs)" and "(k, a) \<in> set vs"
  shows "scan_vertices a vs = Some k"
  using assms
proof (induction vs)
  case Nil
  then show ?case by simp
next
  case (Cons p vs)
  show ?case
  proof (cases "snd p = a")
    case True
    have "a \<notin> snd ` set vs" using Cons.prems(1) True by auto
    moreover have "a \<in> snd ` set vs" if "(k, a) \<in> set vs"
      using imageI [OF that, of snd] by simp
    ultimately have "p = (k, a)" using Cons.prems(2) by auto
    with True show ?thesis by simp
  next
    case False
    with Cons show ?thesis by auto
  qed
qed

lemma scan_vertices_None: "a \<notin> set (map snd vs) \<Longrightarrow> scan_vertices a vs = None"
  by (induction vs) auto

lemma scan_vertices_Some: "scan_vertices a vs = Some k \<Longrightarrow> (k, a) \<in> set vs"
  by (induction vs) (auto split: if_splits)


lemma invariants_Graph_init: "invariants Graph_init"
  by (simp add: Graph_init_def inv_defs vertex_refs_def)

lemma has_edge_scan:
  assumes inv: "invariants s"
    and k0: "map_of (graph_vertices s) k0 = Some v0"
    and k1: "map_of (graph_vertices s) k1 = Some v1"
  shows "\<exists>i. scan_edges (edge_heap s) v1 (edges_of s v0) = Inr i \<and> i \<le> length (edges_of s v0) \<and>
     (has_edge s k0 k1 \<longleftrightarrow> i < length (edges_of s v0)) \<and>
     (\<forall>j<i. \<not> joins (edge_heap s) v1 (edges_of s v0 ! j)) \<and>
     (i < length (edges_of s v0) \<longrightarrow> joins (edge_heap s) v1 (edges_of s v0 ! i))"
proof -
  from invariants_scan [OF inv map_of_ref [OF k0], of v1] obtain i where
    i: "scan_edges (edge_heap s) v1 (edges_of s v0) = Inr i" "i \<le> length (edges_of s v0)"
      "\<forall>j<i. \<not> joins (edge_heap s) v1 (edges_of s v0 ! j)"
      "i < length (edges_of s v0) \<longrightarrow> joins (edge_heap s) v1 (edges_of s v0 ! i)"
    by blast
  have "has_edge s k0 k1 \<longleftrightarrow> (\<exists>e\<in>set (edges_of s v0). joins (edge_heap s) v1 e)"
    by (simp add: has_edge_def k0 k1 list_ex_iff)
  also have "\<dots> \<longleftrightarrow> i < length (edges_of s v0)"
  proof
    assume "\<exists>e\<in>set (edges_of s v0). joins (edge_heap s) v1 e"
    then obtain j where "j < length (edges_of s v0)" "joins (edge_heap s) v1 (edges_of s v0 ! j)"
      by (auto simp: in_set_conv_nth)
    with i(2,3) show "i < length (edges_of s v0)"
      by (cases "i = length (edges_of s v0)") auto
  next
    assume "i < length (edges_of s v0)"
    with i(4) show "\<exists>e\<in>set (edges_of s v0). joins (edge_heap s) v1 e"
      using nth_mem by blast
  qed
  finally show ?thesis using i by blast
qed

lemma getEdge_eval:
  assumes inv: "invariants s" and ne: "k0 \<noteq> k1"
    and k0: "map_of (graph_vertices s) k0 = Some v0"
    and k1: "map_of (graph_vertices s) k1 = Some v1"
    and scan: "scan_edges (edge_heap s) v1 (edges_of s v0) = Inr i"
  shows "getEdge k0 k1 s =
     (if i = length (edges_of s v0) then Inl AssertionFailed else Inr (edges_of s v0 ! i))"
proof -
  have "v0 < length (vertex_heap s)"
    using invariants_ref [OF inv map_of_ref [OF k0]] by simp
  then show ?thesis
    using ne k0 k1 scan by (simp add: getEdge_def edges_at_edges_of)
qed

text \<open>Under the invariants a call ends in one of three ways.\<close>

lemma addEdge_ok:
  assumes inv: "invariants s" and ne: "k0 \<noteq> k1"
    and k0: "map_of (graph_vertices s) k0 = Some v0"
    and k1: "map_of (graph_vertices s) k1 = Some v1"
  shows "\<exists>s'. addEdge k0 k1 d s = Inr s' \<and> invariants s' \<and>
     graph_vertices s' = graph_vertices s \<and> graph_size s' = graph_size s \<and>
     edge_heap s' = edge_heap s @ [\<lparr>edge_vertices = (v0, v1), edge_data = d\<rparr>] \<and>
     length (vertex_heap s') = length (vertex_heap s) \<and>
     (\<forall>b. edges_of s' b =
        (if b = v0 \<or> b = v1 then edges_of s b @ [length (edge_heap s)] else edges_of s b))"
proof -
  have "v0 \<noteq> v1"
    using refs_differ [OF invariants_refs_distinct [OF inv] k0 k1 ne] .
  from addEdge_success [OF ne k0 k1 _ _ this, of d]
    invariants_ref [OF inv map_of_ref [OF k0]] invariants_ref [OF inv map_of_ref [OF k1]]
  obtain s' where s': "addEdge k0 k1 d s = Inr s'"
     "graph_vertices s' = graph_vertices s \<and> graph_size s' = graph_size s \<and>
     edge_heap s' = edge_heap s @ [\<lparr>edge_vertices = (v0, v1), edge_data = d\<rparr>] \<and>
     length (vertex_heap s') = length (vertex_heap s) \<and>
     (\<forall>b. edges_of s' b =
        (if b = v0 \<or> b = v1 then edges_of s b @ [length (edge_heap s)] else edges_of s b))"
    by auto
  with addEdge_invariants [OF inv ne k0 k1 s'(1)] show ?thesis by blast
qed

lemma addEdge_cases:
  assumes inv: "invariants s"
  shows "(\<exists>s'. addEdge k0 k1 d s = Inr s' \<and> invariants s') \<or>
     addEdge k0 k1 d s = Inl (AssertionFailed, s) \<or> addEdge k0 k1 d s = Inl (OutOfRange, s)"
proof (cases "k0 \<noteq> k1 \<and> map_of (graph_vertices s) k0 \<noteq> None \<and> map_of (graph_vertices s) k1 \<noteq> None")
  case True
  then obtain v0 v1 where ne: "k0 \<noteq> k1" and k0: "map_of (graph_vertices s) k0 = Some v0"
    and k1: "map_of (graph_vertices s) k1 = Some v1" by auto
  from addEdge_ok [OF inv ne k0 k1, of d] show ?thesis by blast
next
  case False
  then show ?thesis by (auto simp: addEdge_def split: option.splits)
qed

lemma removeEdge_cases:
  assumes inv: "invariants s"
  shows "(\<exists>s'. removeEdge k0 k1 s = Inr s' \<and> invariants s') \<or>
     removeEdge k0 k1 s = Inl (AssertionFailed, s) \<or> removeEdge k0 k1 s = Inl (OutOfRange, s)"
proof (cases "k0 \<noteq> k1 \<and> map_of (graph_vertices s) k0 \<noteq> None \<and> map_of (graph_vertices s) k1 \<noteq> None")
  case True
  then obtain v0 v1 where ne: "k0 \<noteq> k1" and k0: "map_of (graph_vertices s) k0 = Some v0"
    and k1: "map_of (graph_vertices s) k1 = Some v1" by auto
  from has_edge_scan [OF inv k0 k1] obtain i where
    scan: "scan_edges (edge_heap s) v1 (edges_of s v0) = Inr i" and le: "i \<le> length (edges_of s v0)"
    by blast
  show ?thesis
  proof (cases "i = length (edges_of s v0)")
    case True
    have "v0 < length (vertex_heap s)"
      using invariants_ref [OF inv map_of_ref [OF k0]] by simp
    from removeEdge_no_edge [OF ne k0 k1 this] scan True show ?thesis by simp
  next
    case False
    with le have "i < length (edges_of s v0)" by simp
    from removeEdge_success [OF inv ne k0 k1 scan this] show ?thesis by blast
  qed
next
  case False
  then show ?thesis by (auto simp: removeEdge_def split: option.splits)
qed

lemma removeVertex_cases:
  assumes inv: "invariants s"
  shows "(\<exists>s'. removeVertex k s = Inr s' \<and> invariants s') \<or> removeVertex k s = Inl (OutOfRange, s)"
proof (cases "map_of (graph_vertices s) k")
  case None
  then show ?thesis by (simp add: removeVertex_def)
next
  case (Some a)
  from removeVertex_success [OF inv Some] show ?thesis by blast
qed

lemma getEdge_cases:
  assumes inv: "invariants s"
  shows "(\<exists>e. getEdge k0 k1 s = Inr e) \<or>
     getEdge k0 k1 s = Inl AssertionFailed \<or> getEdge k0 k1 s = Inl OutOfRange"
proof (cases "k0 \<noteq> k1 \<and> map_of (graph_vertices s) k0 \<noteq> None \<and> map_of (graph_vertices s) k1 \<noteq> None")
  case True
  then obtain v0 v1 where ne: "k0 \<noteq> k1" and k0: "map_of (graph_vertices s) k0 = Some v0"
    and k1: "map_of (graph_vertices s) k1 = Some v1" by auto
  from has_edge_scan [OF inv k0 k1] obtain i where
    scan: "scan_edges (edge_heap s) v1 (edges_of s v0) = Inr i" by blast
  show ?thesis by (simp add: getEdge_eval [OF inv ne k0 k1 scan])
next
  case False
  then show ?thesis by (auto simp: getEdge_def split: option.splits)
qed

lemma exec_cases:
  assumes inv: "invariants s"
    and dup: "\<not> (\<exists>key data. c = AddVertex key data \<and> map_of (graph_vertices s) key \<noteq> None)"
  shows "(\<exists>s'. exec c s = Inr s' \<and> invariants s') \<or>
     exec c s = Inl (AssertionFailed, s) \<or> exec c s = Inl (OutOfRange, s)"
proof (cases c)
  case (AddVertex key data)
  with dup have "map_of (graph_vertices s) key = None" by simp
  from addVertex_invariants [OF inv this] AddVertex show ?thesis by simp
next
  case (AddEdge k0 k1 d)
  with addEdge_cases [OF inv] show ?thesis by simp
next
  case (GetVertex k)
  with inv show ?thesis by (simp add: getVertex_def split: option.splits)
next
  case (GetEdge k0 k1)
  with getEdge_cases [OF inv, of k0 k1] inv show ?thesis by auto
next
  case (GetKey v)
  with inv show ?thesis by (simp add: getKey_def split: option.splits)
next
  case GetSize
  with inv show ?thesis by simp
next
  case (RemoveVertex k)
  with removeVertex_cases [OF inv, of k] show ?thesis by auto
next
  case (RemoveEdge k0 k1)
  with removeEdge_cases [OF inv] show ?thesis by simp
qed

text \<open>A call made with its precondition returns.\<close>

lemma exec_pre:
  assumes inv: "invariants s" and pre: "pre c s"
  shows "\<exists>s'. exec c s = Inr s' \<and> invariants s'"
proof (cases c)
  case (AddVertex key data)
  with pre addVertex_invariants [OF inv] show ?thesis by simp
next
  case (AddEdge k0 k1 d)
  with pre obtain v0 v1 where ne: "k0 \<noteq> k1" and k0: "map_of (graph_vertices s) k0 = Some v0"
    and k1: "map_of (graph_vertices s) k1 = Some v1" by auto
  from addEdge_ok [OF inv ne k0 k1, of d] AddEdge show ?thesis by auto
next
  case (GetVertex k)
  with pre inv show ?thesis by (auto simp: getVertex_def)
next
  case (GetEdge k0 k1)
  with pre obtain v0 v1 where ne: "k0 \<noteq> k1" and k0: "map_of (graph_vertices s) k0 = Some v0"
    and k1: "map_of (graph_vertices s) k1 = Some v1" and he: "has_edge s k0 k1"
    by (auto simp: has_edge_def split: option.splits)
  from has_edge_scan [OF inv k0 k1] he obtain i where
    "scan_edges (edge_heap s) v1 (edges_of s v0) = Inr i" "i < length (edges_of s v0)" by blast
  with getEdge_eval [OF inv ne k0 k1 this(1)] GetEdge inv show ?thesis by simp
next
  case (GetKey v)
  from pre GetKey obtain k where "(k, v) \<in> set (graph_vertices s)"
    by (auto simp: vertex_refs_def)
  moreover have "distinct (map snd (graph_vertices s))"
    using invariants_refs_distinct [OF inv] by (simp add: vertex_refs_def)
  ultimately have "scan_vertices v (graph_vertices s) = Some k"
    by (intro scan_vertices_found)
  with GetKey inv show ?thesis by (simp add: getKey_def)
next
  case GetSize
  with inv show ?thesis by simp
next
  case (RemoveVertex k)
  with pre obtain a where "map_of (graph_vertices s) k = Some a" by auto
  from removeVertex_success [OF inv this] RemoveVertex show ?thesis by auto
next
  case (RemoveEdge k0 k1)
  with pre obtain v0 v1 where ne: "k0 \<noteq> k1" and k0: "map_of (graph_vertices s) k0 = Some v0"
    and k1: "map_of (graph_vertices s) k1 = Some v1" and he: "has_edge s k0 k1"
    by (auto simp: has_edge_def split: option.splits)
  from has_edge_scan [OF inv k0 k1] he obtain i where
    "scan_edges (edge_heap s) v1 (edges_of s v0) = Inr i" "i < length (edges_of s v0)" by blast
  from removeEdge_success [OF inv ne k0 k1 this] RemoveEdge show ?thesis by auto
qed

lemma run_invariants:
  "invariants s \<Longrightarrow> run cs s = Some s' \<Longrightarrow> invariants s'"
proof (induction cs arbitrary: s)
  case Nil
  then show ?case by simp
next
  case (Cons c cs)
  from Cons.prems(2) have p: "pre c s" by (simp split: if_splits)
  from exec_pre [OF Cons.prems(1) p] obtain s1 where "exec c s = Inr s1" "invariants s1" by blast
  with Cons.IH [of s1] Cons.prems(2) p show ?case by simp
qed

lemma reachable_invariants: "run cs Graph_init = Some s \<Longrightarrow> invariants s"
  using run_invariants [OF invariants_Graph_init] .

lemma run_take:
  "run cs s = Some s' \<Longrightarrow> \<exists>s''. run (take n cs) s = Some s''"
proof (induction cs arbitrary: s n)
  case Nil
  then show ?case by simp
next
  case (Cons c cs)
  show ?case
  proof (cases n)
    case 0
    then show ?thesis by simp
  next
    case (Suc m)
    from Cons.prems obtain s1 where "pre c s" "exec c s = Inr s1" "run cs s1 = Some s'"
      by (auto split: if_splits sum.splits)
    with Cons.IH [of s1 m] Suc show ?thesis by simp
  qed
qed

section \<open>The example graphs are reachable\<close>

lemma run_example_pair:
  "run [AddVertex 0 ''A'', AddVertex 1 ''B''] Graph_init = Some example_pair"
  by (simp add: example_pair_def Graph_init_def addVertex_def insert_pair_def)

lemma run_example_path:
  "run [AddEdge 0 1 ''x'', AddEdge 1 2 ''y''] (addVertex 2 ''C'' example_pair) = Some example_path"
  by (simp add: example_pair_def example_path_def addVertex_def insert_pair_def addEdge_def
      edges_at_def set_edges_def)

lemma run_example_parallel:
  "run [AddEdge 0 1 ''x'', AddEdge 0 1 ''y''] example_pair = Some example_parallel"
  by (simp add: example_pair_def example_parallel_def addEdge_def edges_at_def set_edges_def)

lemma invariants_example_pair: "invariants example_pair"
  using run_invariants [OF invariants_Graph_init run_example_pair] .

lemma invariants_example_parallel: "invariants example_parallel"
  using run_invariants [OF invariants_example_pair run_example_parallel] .

lemma invariants_example_path: "invariants example_path"
proof -
  have "invariants (addVertex 2 ''C'' example_pair)"
    by (rule addVertex_invariants [OF invariants_example_pair]) (simp add: example_pair_def)
  from run_invariants [OF this run_example_path] show ?thesis .
qed

lemma addEdge_example_pair: "addEdge 0 1 ''x'' example_pair = Inr example_edge"
  by (simp add: example_pair_def example_edge_def addEdge_def edges_at_def set_edges_def)

lemma run_example_edge: "run [AddEdge 0 1 ''x''] example_pair = Some example_edge"
  by (simp add: example_pair_def example_edge_def addEdge_def edges_at_def set_edges_def)

lemma invariants_example_edge: "invariants example_edge"
  using run_invariants [OF invariants_example_pair run_example_edge] .

lemma addEdge_example_edge: "addEdge 0 1 ''y'' example_edge = Inr example_parallel"
  by (simp add: example_edge_def example_parallel_def addEdge_def edges_at_def set_edges_def)

lemma removeVertex_example_path:
  "removeVertex 1 example_path =
     Inr \<lparr>graph_size = 2, graph_vertices = [(0, 0), (2, 2)],
      vertex_heap = [\<lparr>vertex_edges = [], vertex_data = ''A''\<rparr>,
                     \<lparr>vertex_edges = [], vertex_data = ''B''\<rparr>,
                     \<lparr>vertex_edges = [], vertex_data = ''C''\<rparr>],
      edge_heap = [\<lparr>edge_vertices = (0, 1), edge_data = ''x''\<rparr>,
                   \<lparr>edge_vertices = (1, 2), edge_data = ''y''\<rparr>]\<rparr>"
  by (simp add: example_path_def removeVertex_def removeVertex_body_def edges_at_def
      set_edges_def swap_remove_def erase_def)

lemma removeEdge_example_parallel:
  "removeEdge 0 1 example_parallel =
     Inr \<lparr>graph_size = 2, graph_vertices = [(0, 0), (1, 1)],
      vertex_heap = [\<lparr>vertex_edges = [1], vertex_data = ''A''\<rparr>,
                     \<lparr>vertex_edges = [1], vertex_data = ''B''\<rparr>],
      edge_heap = [\<lparr>edge_vertices = (0, 1), edge_data = ''x''\<rparr>,
                   \<lparr>edge_vertices = (0, 1), edge_data = ''y''\<rparr>]\<rparr>"
  by (simp add: example_parallel_def removeEdge_def edges_at_def set_edges_def swap_remove_def)

text \<open>Outside the invariants the searches can fail: with an edge listed on one side
  only, both removals write through \<open>end()\<close>.\<close>

lemma removeEdge_one_sided:
  "\<not> invariants example_one_sided \<and>
   (\<exists>st. removeEdge 0 1 example_one_sided = Inl (InvalidIterator, st)) \<and>
   (\<exists>st. removeVertex 0 example_one_sided = Inl (InvalidIterator, st))"
  by (simp add: example_one_sided_def inv_defs vertex_refs_def edges_of_def ends_def
      removeEdge_def removeVertex_def removeVertex_body_def edges_at_def set_edges_def
      swap_remove_def)

section \<open>Counting edges and first matches\<close>

lemma edge_count_card:
  "edge_count s = card (\<Union>a\<in>set (vertex_refs s). set (edges_of s a))"
  by (simp add: edge_count_def length_remdups_concat image_image)

lemma map_of_erase_other: "k' \<noteq> k \<Longrightarrow> map_of (erase k vs) k' = map_of vs k'"
  by (induction vs) (auto simp: erase_def)

lemma hd_filter_first:
  "i < length es \<Longrightarrow> P (es ! i) \<Longrightarrow> \<forall>j<i. \<not> P (es ! j) \<Longrightarrow> hd (filter P es) = es ! i"
proof (induction es arbitrary: i)
  case Nil
  then show ?case by simp
next
  case (Cons x es)
  show ?case
  proof (cases i)
    case 0
    with Cons.prems show ?thesis by simp
  next
    case (Suc m)
    with Cons.prems have "\<not> P x" by auto
    moreover have "hd (filter P es) = es ! m"
      using Cons.prems Suc by (intro Cons.IH) auto
    ultimately show ?thesis using Suc by simp
  qed
qed

lemma has_edge_filter:
  assumes "map_of (graph_vertices s) k0 = Some v0" and "map_of (graph_vertices s) k1 = Some v1"
  shows "has_edge s k0 k1 \<longleftrightarrow> filter (joins (edge_heap s) v1) (edges_of s v0) \<noteq> []"
  using assms by (auto simp: has_edge_def list_ex_iff filter_empty_conv)

lemma listed_by_two:
  assumes inv: "invariants s" and a: "a \<in> set (vertex_refs s)" and e: "e \<in> set (edges_of s a)"
  shows "length (listed_by s e) = 2 \<and> set (listed_by s e) = {fst (ends s e), snd (ends s e)}"
proof -
  note E = invariants_edge [OF inv a e]
  have "b = fst (ends s e) \<or> b = snd (ends s e)"
    if "b \<in> set (vertex_refs s)" "e \<in> set (edges_of s b)" for b
    using invariants_listed_only_at_ends [OF inv that] .
  with E have s: "set (listed_by s e) = {fst (ends s e), snd (ends s e)}"
    by (auto simp: listed_by_def)
  have "distinct (listed_by s e)"
    using invariants_refs_distinct [OF inv] by (simp add: listed_by_def)
  then have "length (listed_by s e) = card {fst (ends s e), snd (ends s e)}"
    using s by (metis distinct_card)
  with E s show ?thesis by simp
qed

lemma listed_by_cases:
  assumes inv: "invariants s"
  shows "listed_by s e = [] \<or>
     (length (listed_by s e) = 2 \<and> set (listed_by s e) = {fst (ends s e), snd (ends s e)})"
proof (cases "listed_by s e = []")
  case True
  then show ?thesis by simp
next
  case False
  then obtain a where "a \<in> set (vertex_refs s)" "e \<in> set (edges_of s a)"
    by (auto simp: listed_by_def filter_empty_conv)
  from listed_by_two [OF inv this] show ?thesis by simp
qed

lemma listed_by_Nil: "listed_by s e = [] \<longleftrightarrow> (\<forall>a\<in>set (vertex_refs s). e \<notin> set (edges_of s a))"
  by (auto simp: listed_by_def filter_empty_conv)

lemma count_list_distinct: "distinct xs \<Longrightarrow> x \<in> set xs \<Longrightarrow> count_list xs x = 1"
  by (induction xs) (auto simp: count_list_0_iff)

lemma listed_once:
  assumes inv: "invariants s" and a: "a \<in> set (listed_by s e)"
  shows "count_list (edges_of s a) e = 1"
proof -
  from a have r: "a \<in> set (vertex_refs s)" and e: "e \<in> set (edges_of s a)"
    by (simp_all add: listed_by_def)
  from invariants_ref [OF inv r] have "distinct (edges_of s a)" by simp
  then show ?thesis using e by (rule count_list_distinct)
qed

lemma getEdge_hd:
  assumes inv: "invariants s" and ne: "k0 \<noteq> k1"
    and k0: "map_of (graph_vertices s) k0 = Some v0"
    and k1: "map_of (graph_vertices s) k1 = Some v1"
  shows "getEdge k0 k1 s =
     (if has_edge s k0 k1 then Inr (hd (filter (joins (edge_heap s) v1) (edges_of s v0)))
      else Inl AssertionFailed)"
proof -
  from has_edge_scan [OF inv k0 k1] obtain i where
    scan: "scan_edges (edge_heap s) v1 (edges_of s v0) = Inr i" and le: "i \<le> length (edges_of s v0)"
    and he: "has_edge s k0 k1 \<longleftrightarrow> i < length (edges_of s v0)"
    and first: "\<forall>j<i. \<not> joins (edge_heap s) v1 (edges_of s v0 ! j)"
    and hit: "i < length (edges_of s v0) \<longrightarrow> joins (edge_heap s) v1 (edges_of s v0 ! i)"
    by blast
  show ?thesis
  proof (cases "has_edge s k0 k1")
    case True
    with he hit have i: "i < length (edges_of s v0)" "joins (edge_heap s) v1 (edges_of s v0 ! i)"
      by auto
    from hd_filter_first [OF i first] True i(1) show ?thesis
      by (simp add: getEdge_eval [OF inv ne k0 k1 scan])
  next
    case False
    with he le show ?thesis by (simp add: getEdge_eval [OF inv ne k0 k1 scan])
  qed
qed

lemma has_edge_sym:
  assumes inv: "invariants s" and ne: "k0 \<noteq> k1" and he: "has_edge s k0 k1"
  shows "has_edge s k1 k0"
proof -
  from he obtain v0 v1 e where k0: "map_of (graph_vertices s) k0 = Some v0"
    and k1: "map_of (graph_vertices s) k1 = Some v1"
    and e: "e \<in> set (edges_of s v0)" "joins (edge_heap s) v1 e"
    by (auto simp: has_edge_def list_ex_iff split: option.splits)
  have v01: "v0 \<noteq> v1"
    using refs_differ [OF invariants_refs_distinct [OF inv] k0 k1 ne] .
  note J = invariants_joined [OF inv map_of_ref [OF k0] e v01]
  have "joins (edge_heap s) v0 e" using J(3) by (auto simp: joins_ends doubleton_eq_iff)
  with J(2) k0 k1 show ?thesis by (auto simp: has_edge_def list_ex_iff)
qed

lemma joins_snoc:
  "e < length eh \<Longrightarrow> joins (eh @ [x]) v e = joins eh v e"
  by (simp add: joins_def nth_append)

lemma reach_example_edge:
  "run [AddVertex 0 ''A'', AddVertex 1 ''B'', AddEdge 0 1 ''x''] Graph_init = Some example_edge"
  by (simp add: example_edge_def Graph_init_def addVertex_def insert_pair_def addEdge_def
      edges_at_def set_edges_def)

lemma reach_example_path:
  "run [AddVertex 0 ''A'', AddVertex 1 ''B'', AddVertex 2 ''C'', AddEdge 0 1 ''x'', AddEdge 1 2 ''y'']
     Graph_init = Some example_path"
  by (simp add: example_path_def Graph_init_def addVertex_def insert_pair_def addEdge_def
      edges_at_def set_edges_def)

lemma run_addVertex_distinct:
  assumes "distinct (map fst kds)" and "fst ` set kds \<inter> fst ` set (graph_vertices s) = {}"
  shows "\<exists>s'. run (map (\<lambda>(key, data). AddVertex key data) kds) s = Some s' \<and>
     length (graph_vertices s') = length (graph_vertices s) + length kds"
  using assms
proof (induction kds arbitrary: s)
  case Nil
  then show ?case by simp
next
  case (Cons p kds)
  obtain key data where p: "p = (key, data)" by (cases p)
  have fresh: "map_of (graph_vertices s) key = None"
    using Cons.prems(2) by (auto simp: p map_of_eq_None_iff)
  let ?s1 = "addVertex key data s"
  have gv: "graph_vertices ?s1 = graph_vertices s @ [(key, length (vertex_heap s))]"
    by (rule addVertex_frame [OF fresh])
  have "fst ` set kds \<inter> fst ` set (graph_vertices ?s1) = {}"
    using Cons.prems by (auto simp: gv p)
  with Cons.IH [of ?s1] Cons.prems(1) obtain s' where
    "run (map (\<lambda>(key, data). AddVertex key data) kds) ?s1 = Some s'"
    "length (graph_vertices s') = length (graph_vertices ?s1) + length kds"
    by auto
  with fresh show ?case by (simp add: p gv)
qed

section \<open>The claims\<close>

text \<open>
  C1. In every state reached from the empty graph by calls made with their
  preconditions, every edge is listed by no vertex of the graph or by exactly two, once
  by each, and then these two are its two ends. The calls keep it so in one step.
  \<open>addEdge\<close> appends the new edge, which no vertex listed, to the collections of both
  vertices and leaves every other collection as it was. \<open>removeEdge\<close> takes one edge,
  listed by both vertices, out of the collections of both, and no other edge out of any
  collection. \<open>removeVertex\<close> leaves the collection of the removed vertex empty and
  takes every edge it listed, and no other edge, out of the collections of the
  remaining vertices, so that no vertex the graph had before the call, the removed one
  included, lists such an edge afterwards.
\<close>

theorem edge_listed_by_both_ends_or_none:
  assumes run: "run cs Graph_init = Some s"
  shows "(\<forall>e. listed_by s e = [] \<or>
            (length (listed_by s e) = 2 \<and> set (listed_by s e) = {fst (ends s e), snd (ends s e)} \<and>
             (\<forall>a\<in>set (listed_by s e). count_list (edges_of s a) e = 1))) \<and>
     (\<forall>k0 k1 d. pre (AddEdge k0 k1 d) s \<longrightarrow>
        (\<exists>s' v0 v1. addEdge k0 k1 d s = Inr s' \<and>
           map_of (graph_vertices s) k0 = Some v0 \<and> map_of (graph_vertices s) k1 = Some v1 \<and>
           ends s' (length (edge_heap s)) = (v0, v1) \<and>
           edges_of s' v0 = edges_of s v0 @ [length (edge_heap s)] \<and>
           edges_of s' v1 = edges_of s v1 @ [length (edge_heap s)] \<and>
           (\<forall>b. b \<noteq> v0 \<and> b \<noteq> v1 \<longrightarrow> edges_of s' b = edges_of s b) \<and>
           vertex_refs s' = vertex_refs s \<and>
           listed_by s (length (edge_heap s)) = [] \<and>
           set (listed_by s' (length (edge_heap s))) = {v0, v1} \<and>
           length (listed_by s' (length (edge_heap s))) = 2)) \<and>
     (\<forall>k0 k1. pre (RemoveEdge k0 k1) s \<longrightarrow>
        (\<exists>s' e v0 v1. removeEdge k0 k1 s = Inr s' \<and>
           map_of (graph_vertices s) k0 = Some v0 \<and> map_of (graph_vertices s) k1 = Some v1 \<and>
           e \<in> set (edges_of s v0) \<and> e \<in> set (edges_of s v1) \<and>
           e \<notin> set (edges_of s' v0) \<and> e \<notin> set (edges_of s' v1) \<and>
           (\<forall>a\<in>set (vertex_refs s). set (edges_of s' a) = set (edges_of s a) - {e}) \<and>
           (\<forall>b. b \<noteq> v0 \<and> b \<noteq> v1 \<longrightarrow> edges_of s' b = edges_of s b) \<and>
           vertex_refs s' = vertex_refs s \<and>
           length (listed_by s e) = 2 \<and> listed_by s' e = [])) \<and>
     (\<forall>k. pre (RemoveVertex k) s \<longrightarrow>
        (\<exists>s' v. removeVertex k s = Inr s' \<and> map_of (graph_vertices s) k = Some v \<and>
           edges_of s' v = [] \<and>
           set (vertex_refs s') = set (vertex_refs s) - {v} \<and>
           (\<forall>a\<in>set (vertex_refs s').
              set (edges_of s' a) = set (edges_of s a) - set (edges_of s v)) \<and>
           (\<forall>e\<in>set (edges_of s v).
              length (listed_by s e) = 2 \<and> listed_by s' e = [] \<and>
              (\<forall>a\<in>set (vertex_refs s). e \<notin> set (edges_of s' a)))))"
proof (intro conjI allI impI)
  have inv: "invariants s" using run by (rule reachable_invariants)
  show "listed_by s e = [] \<or>
      (length (listed_by s e) = 2 \<and> set (listed_by s e) = {fst (ends s e), snd (ends s e)} \<and>
       (\<forall>a\<in>set (listed_by s e). count_list (edges_of s a) e = 1))" for e
    using listed_by_cases [OF inv, of e] listed_once [OF inv, of _ e] by blast
  show "\<exists>s' v0 v1. addEdge k0 k1 d s = Inr s' \<and>
           map_of (graph_vertices s) k0 = Some v0 \<and> map_of (graph_vertices s) k1 = Some v1 \<and>
           ends s' (length (edge_heap s)) = (v0, v1) \<and>
           edges_of s' v0 = edges_of s v0 @ [length (edge_heap s)] \<and>
           edges_of s' v1 = edges_of s v1 @ [length (edge_heap s)] \<and>
           (\<forall>b. b \<noteq> v0 \<and> b \<noteq> v1 \<longrightarrow> edges_of s' b = edges_of s b) \<and>
           vertex_refs s' = vertex_refs s \<and>
           listed_by s (length (edge_heap s)) = [] \<and>
           set (listed_by s' (length (edge_heap s))) = {v0, v1} \<and>
           length (listed_by s' (length (edge_heap s))) = 2"
    if "pre (AddEdge k0 k1 d) s" for k0 k1 d
  proof -
    let ?n = "length (edge_heap s)"
    from that obtain v0 v1 where ne: "k0 \<noteq> k1" and k0: "map_of (graph_vertices s) k0 = Some v0"
      and k1: "map_of (graph_vertices s) k1 = Some v1" by auto
    from addEdge_ok [OF inv ne k0 k1, of d] obtain s' where
      res: "addEdge k0 k1 d s = Inr s'" and inv': "invariants s'"
      and F: "graph_vertices s' = graph_vertices s"
        "edge_heap s' = edge_heap s @ [\<lparr>edge_vertices = (v0, v1), edge_data = d\<rparr>]"
      and eo: "\<And>b. edges_of s' b = (if b = v0 \<or> b = v1 then edges_of s b @ [?n] else edges_of s b)"
      by blast
    have ends: "ends s' ?n = (v0, v1)" by (simp add: ends_def F)
    have refs: "vertex_refs s' = vertex_refs s" by (simp add: vertex_refs_def F)
    have r0: "v0 \<in> set (vertex_refs s')"
      using map_of_ref [OF k0] by (simp add: refs)
    have "?n \<in> set (edges_of s' v0)" by (simp add: eo)
    from listed_by_two [OF inv' r0 this]
    have two: "length (listed_by s' ?n) = 2" "set (listed_by s' ?n) = {v0, v1}"
      by (simp_all add: ends)
    have "?n \<notin> set (edges_of s a)" if "a \<in> set (vertex_refs s)" for a
      using invariants_edge [OF inv that, of ?n] by auto
    then have "listed_by s ?n = []" by (simp add: listed_by_Nil)
    with res k0 k1 ends two refs show ?thesis by (simp add: eo)
  qed
  show "\<exists>s' e v0 v1. removeEdge k0 k1 s = Inr s' \<and>
           map_of (graph_vertices s) k0 = Some v0 \<and> map_of (graph_vertices s) k1 = Some v1 \<and>
           e \<in> set (edges_of s v0) \<and> e \<in> set (edges_of s v1) \<and>
           e \<notin> set (edges_of s' v0) \<and> e \<notin> set (edges_of s' v1) \<and>
           (\<forall>a\<in>set (vertex_refs s). set (edges_of s' a) = set (edges_of s a) - {e}) \<and>
           (\<forall>b. b \<noteq> v0 \<and> b \<noteq> v1 \<longrightarrow> edges_of s' b = edges_of s b) \<and>
           vertex_refs s' = vertex_refs s \<and>
           length (listed_by s e) = 2 \<and> listed_by s' e = []"
    if "pre (RemoveEdge k0 k1) s" for k0 k1
  proof -
    from that obtain v0 v1 where ne: "k0 \<noteq> k1" and k0: "map_of (graph_vertices s) k0 = Some v0"
      and k1: "map_of (graph_vertices s) k1 = Some v1" and he: "has_edge s k0 k1"
      by (auto simp: has_edge_def split: option.splits)
    from has_edge_scan [OF inv k0 k1] he obtain i where
      scan: "scan_edges (edge_heap s) v1 (edges_of s v0) = Inr i" and i: "i < length (edges_of s v0)"
      by blast
    let ?e = "edges_of s v0 ! i"
    from removeEdge_success [OF inv ne k0 k1 scan i] obtain s' where
      res: "removeEdge k0 k1 s = Inr s'" and gv: "graph_vertices s' = graph_vertices s"
      and in1: "?e \<in> set (edges_of s v1)"
      and other: "\<forall>b. b \<noteq> v0 \<and> b \<noteq> v1 \<longrightarrow> edges_of s' b = edges_of s b"
      and rem: "\<forall>a\<in>set (vertex_refs s). set (edges_of s' a) = set (edges_of s a) - {?e}"
      by blast
    have refs: "vertex_refs s' = vertex_refs s" by (simp add: vertex_refs_def gv)
    have in0: "?e \<in> set (edges_of s v0)" using i by simp
    have out: "?e \<notin> set (edges_of s' v0)" "?e \<notin> set (edges_of s' v1)"
      using rem map_of_ref [OF k0] map_of_ref [OF k1] by auto
    from listed_by_two [OF inv map_of_ref [OF k0] in0] have two: "length (listed_by s ?e) = 2"
      by simp
    have none: "listed_by s' ?e = []"
      using rem by (simp add: listed_by_Nil refs)
    show ?thesis
      by (intro exI conjI) (rule res k0 k1 in0 in1 out rem other refs two none)+
  qed
  show "\<exists>s' v. removeVertex k s = Inr s' \<and> map_of (graph_vertices s) k = Some v \<and>
           edges_of s' v = [] \<and>
           set (vertex_refs s') = set (vertex_refs s) - {v} \<and>
           (\<forall>a\<in>set (vertex_refs s').
              set (edges_of s' a) = set (edges_of s a) - set (edges_of s v)) \<and>
           (\<forall>e\<in>set (edges_of s v).
              length (listed_by s e) = 2 \<and> listed_by s' e = [] \<and>
              (\<forall>a\<in>set (vertex_refs s). e \<notin> set (edges_of s' a)))"
    if "pre (RemoveVertex k) s" for k
  proof -
    from that obtain v where k: "map_of (graph_vertices s) k = Some v" by auto
    from removeVertex_success [OF inv k] obtain s' where
      res: "removeVertex k s = Inr s'"
      and refs: "set (vertex_refs s') = set (vertex_refs s) - {v}"
      and empty: "edges_of s' v = []"
      and rest: "\<forall>b\<in>set (vertex_refs s'). set (edges_of s' b) = set (edges_of s b) - set (edges_of s v)"
      by blast
    have det: "\<forall>e\<in>set (edges_of s v).
              length (listed_by s e) = 2 \<and> listed_by s' e = [] \<and>
              (\<forall>a\<in>set (vertex_refs s). e \<notin> set (edges_of s' a))"
    proof (intro ballI conjI)
      fix e assume e: "e \<in> set (edges_of s v)"
      show "length (listed_by s e) = 2"
        using listed_by_two [OF inv map_of_ref [OF k] e] by simp
      show "listed_by s' e = []"
        using rest e by (simp add: listed_by_Nil)
      fix a assume a: "a \<in> set (vertex_refs s)"
      show "e \<notin> set (edges_of s' a)"
      proof (cases "a = v")
        case True
        then show ?thesis by (simp add: empty)
      next
        case False
        with a refs have "a \<in> set (vertex_refs s')" by simp
        with rest e show ?thesis by simp
      qed
    qed
    show ?thesis
      by (intro exI conjI) (rule res k empty refs rest det)+
  qed
qed

theorem edge_listed_by_both_ends_or_none_witness:
  "run [AddVertex 0 ''A'', AddVertex 1 ''B'', AddVertex 2 ''C'', AddEdge 0 1 ''x'', AddEdge 1 2 ''y'']
     Graph_init = Some example_path \<and>
   length (listed_by example_path 0) = 2 \<and> set (listed_by example_path 0) = {0, 1} \<and>
   pre (AddEdge 0 2 ''z'') example_path \<and>
   (\<exists>s'. addEdge 0 2 ''z'' example_path = Inr s' \<and>
      edges_of s' 0 = [0, 2] \<and> edges_of s' 2 = [1, 2] \<and> set (listed_by s' 2) = {0, 2}) \<and>
   pre (RemoveEdge 1 2) example_path \<and>
   (\<exists>s' e. removeEdge 1 2 example_path = Inr s' \<and> e \<in> set (edges_of example_path 1) \<and>
      e \<in> set (edges_of example_path 2) \<and> e \<notin> set (edges_of s' 1) \<and>
      e \<notin> set (edges_of s' 2) \<and> listed_by s' e = []) \<and>
   pre (RemoveVertex 1) example_path \<and>
   (\<exists>s'. removeVertex 1 example_path = Inr s' \<and> edges_of s' 1 = [] \<and>
      listed_by s' 0 = [] \<and> listed_by s' 1 = [] \<and>
      0 \<notin> set (edges_of s' 0) \<and> 1 \<notin> set (edges_of s' 2))"
proof -
  note t = edge_listed_by_both_ends_or_none [OF reach_example_path]
  have m: "map_of (graph_vertices example_path) 0 = Some 0"
    "map_of (graph_vertices example_path) 1 = Some 1"
    "map_of (graph_vertices example_path) 2 = Some 2"
    by (simp_all add: example_path_def)
  have eo: "edges_of example_path 0 = [0]" "edges_of example_path 1 = [0, 1]"
    "edges_of example_path 2 = [1]"
    by (simp_all add: example_path_def edges_of_def)
  have refs: "vertex_refs example_path = [0, 1, 2]"
    by (simp add: example_path_def vertex_refs_def)
  have n: "length (edge_heap example_path) = 2"
    by (simp add: example_path_def)
  have l0: "listed_by example_path 0 = [0, 1]"
    by (simp add: listed_by_def example_path_def vertex_refs_def edges_of_def)
  have p: "pre (AddEdge 0 2 ''z'') example_path" "pre (RemoveEdge 1 2) example_path"
    "pre (RemoveVertex 1) example_path"
    by (simp_all add: example_path_def has_edge_def joins_def edges_of_def)
  from t [THEN conjunct1, rule_format, of 0] l0
  have c1: "length (listed_by example_path 0) = 2" "set (listed_by example_path 0) = {0, 1}"
    by simp_all
  from t [THEN conjunct2, THEN conjunct1, rule_format, OF p(1)]
  have c2: "\<exists>s'. addEdge 0 2 ''z'' example_path = Inr s' \<and>
      edges_of s' 0 = [0, 2] \<and> edges_of s' 2 = [1, 2] \<and> set (listed_by s' 2) = {0, 2}"
    by (elim exE conjE) (insert m eo n, simp)
  from t [THEN conjunct2, THEN conjunct2, THEN conjunct1, rule_format, OF p(2)]
  have c3: "\<exists>s' e. removeEdge 1 2 example_path = Inr s' \<and> e \<in> set (edges_of example_path 1) \<and>
      e \<in> set (edges_of example_path 2) \<and> e \<notin> set (edges_of s' 1) \<and>
      e \<notin> set (edges_of s' 2) \<and> listed_by s' e = []"
    by (elim exE conjE) (insert m, simp, blast)
  from t [THEN conjunct2, THEN conjunct2, THEN conjunct2, rule_format, OF p(3)]
  have c4: "\<exists>s'. removeVertex 1 example_path = Inr s' \<and> edges_of s' 1 = [] \<and>
      listed_by s' 0 = [] \<and> listed_by s' 1 = [] \<and>
      0 \<notin> set (edges_of s' 0) \<and> 1 \<notin> set (edges_of s' 2)"
    by (elim exE conjE) (insert m eo refs, simp)
  from reach_example_path c1 p c2 c3 c4 show ?thesis
    by (intro conjI)
qed

text \<open>
  C2, as amended. After \<open>addEdge(k0, k1, payload)\<close> on a graph that satisfies the
  invariants, for two different keys in the map, \<open>getEdge(k0, k1)\<close> and
  \<open>getEdge(k1, k0)\<close> both return, each the first edge in the collection of its first
  key's vertex that joins the other vertex, and the two ends of the returned edge are
  the vertices stored at \<open>k0\<close> and \<open>k1\<close>. When no edge joined the two vertices
  before the call, both return the new edge, whose payload is the one passed. When one
  did, each returns the edge it returned before the call, with its old payload.
\<close>

theorem getEdge_after_addEdge:
  assumes inv: "invariants s" and ne: "k0 \<noteq> k1"
    and k0: "map_of (graph_vertices s) k0 = Some v0"
    and k1: "map_of (graph_vertices s) k1 = Some v1"
    and res: "addEdge k0 k1 d s = Inr s'"
  shows "\<exists>e0 e1. getEdge k0 k1 s' = Inr e0 \<and> getEdge k1 k0 s' = Inr e1 \<and>
     getVertex k0 s' = Inr v0 \<and> getVertex k1 s' = Inr v1 \<and>
     {fst (ends s' e0), snd (ends s' e0)} = {v0, v1} \<and>
     {fst (ends s' e1), snd (ends s' e1)} = {v0, v1} \<and>
     e0 = hd (filter (joins (edge_heap s') v1) (edges_of s' v0)) \<and>
     e1 = hd (filter (joins (edge_heap s') v0) (edges_of s' v1)) \<and>
     (if has_edge s k0 k1
      then getEdge k0 k1 s = Inr e0 \<and> getEdge k1 k0 s = Inr e1 \<and>
           edge_data (edge_heap s' ! e0) = edge_data (edge_heap s ! e0) \<and>
           edge_data (edge_heap s' ! e1) = edge_data (edge_heap s ! e1)
      else e0 = length (edge_heap s) \<and> e1 = length (edge_heap s) \<and>
           edge_data (edge_heap s' ! e0) = d \<and> edge_data (edge_heap s' ! e1) = d)"
proof -
  let ?n = "length (edge_heap s)"
  from addEdge_ok [OF inv ne k0 k1, of d] res have inv': "invariants s'"
    and gv: "graph_vertices s' = graph_vertices s"
    and eh: "edge_heap s' = edge_heap s @ [\<lparr>edge_vertices = (v0, v1), edge_data = d\<rparr>]"
    and eo: "\<And>b. edges_of s' b = (if b = v0 \<or> b = v1 then edges_of s b @ [?n] else edges_of s b)"
    by auto
  have k0': "map_of (graph_vertices s') k0 = Some v0" and k1': "map_of (graph_vertices s') k1 = Some v1"
    using k0 k1 by (simp_all add: gv)
  have r0: "v0 \<in> set (vertex_refs s)" and r1: "v1 \<in> set (vertex_refs s)"
    using k0 k1 by (auto dest: map_of_ref)
  have v01: "v0 \<noteq> v1"
    using refs_differ [OF invariants_refs_distinct [OF inv] k0 k1 ne] .
  have old: "e < ?n" if "a \<in> set (vertex_refs s)" "e \<in> set (edges_of s a)" for a e
    using invariants_edge [OF inv that] by simp
  have jn: "joins (edge_heap s') v0 ?n" "joins (edge_heap s') v1 ?n"
    by (simp_all add: joins_def eh)
  have f: "filter (joins (edge_heap s') w) (edges_of s' a) =
      filter (joins (edge_heap s) w) (edges_of s a) @ [?n]"
    if "a = v0 \<or> a = v1" "w = v0 \<or> w = v1" for a w
  proof -
    have "filter (joins (edge_heap s') w) (edges_of s a) = filter (joins (edge_heap s) w) (edges_of s a)"
      using that(1) old r0 r1 by (intro filter_cong) (auto simp: eh joins_snoc)
    with that jn show ?thesis by (auto simp: eo)
  qed
  have he': "has_edge s' k0 k1" "has_edge s' k1 k0"
    by (simp_all add: has_edge_filter [OF k0' k1'] has_edge_filter [OF k1' k0'] f)
  let ?e0 = "hd (filter (joins (edge_heap s') v1) (edges_of s' v0))"
  let ?e1 = "hd (filter (joins (edge_heap s') v0) (edges_of s' v1))"
  have g0: "getEdge k0 k1 s' = Inr ?e0"
    using getEdge_hd [OF inv' ne k0' k1'] he' by simp
  have g1: "getEdge k1 k0 s' = Inr ?e1"
    using getEdge_hd [OF inv' ne [symmetric] k1' k0'] he' by simp
  have m0: "?e0 \<in> set (filter (joins (edge_heap s') v1) (edges_of s' v0))"
    by (rule hd_in_set) (simp add: f)
  have m1: "?e1 \<in> set (filter (joins (edge_heap s') v0) (edges_of s' v1))"
    by (rule hd_in_set) (simp add: f)
  have r0': "v0 \<in> set (vertex_refs s')" and r1': "v1 \<in> set (vertex_refs s')"
    using r0 r1 by (simp_all add: vertex_refs_def gv)
  have en0: "{fst (ends s' ?e0), snd (ends s' ?e0)} = {v0, v1}"
    using invariants_joined(3) [OF inv' r0' _ _ v01, of ?e0] m0 by simp
  have en1: "{fst (ends s' ?e1), snd (ends s' ?e1)} = {v0, v1}"
    using invariants_joined(3) [OF inv' r1' _ _ v01 [symmetric], of ?e1] m1 by auto
  have last: "if has_edge s k0 k1
      then getEdge k0 k1 s = Inr ?e0 \<and> getEdge k1 k0 s = Inr ?e1 \<and>
           edge_data (edge_heap s' ! ?e0) = edge_data (edge_heap s ! ?e0) \<and>
           edge_data (edge_heap s' ! ?e1) = edge_data (edge_heap s ! ?e1)
      else ?e0 = ?n \<and> ?e1 = ?n \<and>
           edge_data (edge_heap s' ! ?e0) = d \<and> edge_data (edge_heap s' ! ?e1) = d"
  proof (cases "has_edge s k0 k1")
    case True
    then have h10: "has_edge s k1 k0" by (rule has_edge_sym [OF inv ne])
    have ne0: "filter (joins (edge_heap s) v1) (edges_of s v0) \<noteq> []"
      using True by (simp add: has_edge_filter [OF k0 k1])
    have ne1: "filter (joins (edge_heap s) v0) (edges_of s v1) \<noteq> []"
      using h10 by (simp add: has_edge_filter [OF k1 k0])
    have e0: "?e0 = hd (filter (joins (edge_heap s) v1) (edges_of s v0))"
      using ne0 by (simp add: f)
    have e1: "?e1 = hd (filter (joins (edge_heap s) v0) (edges_of s v1))"
      using ne1 by (simp add: f)
    have "?e0 \<in> set (edges_of s v0)"
      unfolding e0 using hd_in_set [OF ne0] by simp
    then have l0: "?e0 < ?n" using old [OF r0] by simp
    have "?e1 \<in> set (edges_of s v1)"
      unfolding e1 using hd_in_set [OF ne1] by simp
    then have l1: "?e1 < ?n" using old [OF r1] by simp
    from True h10 e0 e1 l0 l1 show ?thesis
      by (simp add: getEdge_hd [OF inv ne k0 k1] getEdge_hd [OF inv ne [symmetric] k1 k0]
          eh nth_append)
  next
    case False
    then have "\<not> has_edge s k1 k0" using has_edge_sym [OF inv ne [symmetric]] by blast
    with False have "filter (joins (edge_heap s) v1) (edges_of s v0) = []"
      "filter (joins (edge_heap s) v0) (edges_of s v1) = []"
      by (simp_all add: has_edge_filter [OF k0 k1] has_edge_filter [OF k1 k0])
    then have "?e0 = ?n" "?e1 = ?n" by (simp_all add: f)
    with False show ?thesis by (simp add: eh)
  qed
  from g0 g1 k0' k1' en0 en1 last show ?thesis
    by (simp add: getVertex_def)
qed

theorem getEdge_after_addEdge_witness:
  "invariants example_pair \<and> (0::nat) \<noteq> 1 \<and>
   map_of (graph_vertices example_pair) 0 = Some 0 \<and>
   map_of (graph_vertices example_pair) 1 = Some 1 \<and>
   addEdge 0 1 ''x'' example_pair = Inr example_edge \<and>
   getEdge 0 1 example_edge = Inr 0 \<and> getEdge 1 0 example_edge = Inr 0 \<and>
   edge_data (edge_heap example_edge ! 0) = ''x''"
proof -
  have a: "addEdge 0 1 ''x'' example_pair = Inr example_edge"
    by (simp add: example_pair_def example_edge_def addEdge_def edges_at_def set_edges_def)
  have m: "map_of (graph_vertices example_pair) 0 = Some 0"
    "map_of (graph_vertices example_pair) 1 = Some 1"
    by (simp_all add: example_pair_def)
  have h: "\<not> has_edge example_pair 0 1"
    by (simp add: example_pair_def has_edge_def edges_of_def)
  have n: "length (edge_heap example_pair) = 0" by (simp add: example_pair_def)
  have ne: "(0::nat) \<noteq> 1" by simp
  from getEdge_after_addEdge [OF invariants_example_pair ne m a]
  have "getEdge 0 1 example_edge = Inr 0 \<and> getEdge 1 0 example_edge = Inr 0 \<and>
     edge_data (edge_heap example_edge ! 0) = ''x''"
    by (elim exE conjE) (insert h n, simp)
  with invariants_example_pair m a show ?thesis by simp
qed

text \<open>
  C2 as stated fails where a parallel edge exists: a second \<open>addEdge(0, 1, y)\<close> on
  the graph with the edge \<open>x\<close> between the keys 0 and 1 returns normally, and
  \<open>getEdge(0, 1)\<close> then returns the edge with the payload \<open>x\<close>, not \<open>y\<close>.
\<close>

theorem getEdge_after_addEdge_counterexample:
  "invariants example_edge \<and> (0::nat) \<noteq> 1 \<and>
   map_of (graph_vertices example_edge) 0 = Some 0 \<and>
   map_of (graph_vertices example_edge) 1 = Some 1 \<and>
   addEdge 0 1 ''y'' example_edge = Inr example_parallel \<and>
   getEdge 0 1 example_parallel = Inr 0 \<and>
   edge_data (edge_heap example_parallel ! 0) = ''x'' \<and>
   edge_data (edge_heap example_parallel ! 0) \<noteq> ''y''"
  using invariants_example_edge addEdge_example_edge
  by (simp add: example_edge_def)
    (simp add: example_parallel_def getEdge_def edges_at_def)

text \<open>
  C3. On a graph that satisfies the invariants, \<open>removeVertex(k)\<close> for a key in the
  map returns; afterwards \<open>k\<close> is not in the map (and \<open>getVertex(k)\<close> throws), the
  other keys are stored as before, no edge in the collection of a remaining vertex was
  listed by the removed vertex or joins it, the counter is one less, the map has one
  entry less, and the number of distinct edges of the graph has gone down by the
  number of edges the removed vertex listed.
\<close>

theorem removeVertex_detaches:
  assumes inv: "invariants s" and k: "map_of (graph_vertices s) k = Some v"
  shows "\<exists>s'. removeVertex k s = Inr s' \<and> invariants s' \<and>
     map_of (graph_vertices s') k = None \<and> getVertex k s' = Inl OutOfRange \<and>
     (\<forall>k'. k' \<noteq> k \<longrightarrow> map_of (graph_vertices s') k' = map_of (graph_vertices s) k') \<and>
     (\<forall>b\<in>set (vertex_refs s'). \<forall>e\<in>set (edges_of s' b).
        e \<notin> set (edges_of s v) \<and> \<not> joins (edge_heap s) v e) \<and>
     getSize s' = getSize s - 1 \<and>
     length (graph_vertices s') + 1 = length (graph_vertices s) \<and>
     edge_count s' + length (edges_of s v) = edge_count s"
proof -
  from removeVertex_success [OF inv k] obtain s' where
    res: "removeVertex k s = Inr s'" and inv': "invariants s'"
    and gv: "graph_vertices s' = erase k (graph_vertices s)"
    and sz: "graph_size s' = graph_size s - 1"
    and refs: "set (vertex_refs s') = set (vertex_refs s) - {v}"
    and rest: "\<forall>b\<in>set (vertex_refs s'). set (edges_of s' b) = set (edges_of s b) - set (edges_of s v)"
    by blast
  have rv: "v \<in> set (vertex_refs s)" using k by (rule map_of_ref)
  have gone: "map_of (graph_vertices s') k = None"
    by (simp add: gv map_of_erase)
  have others: "map_of (graph_vertices s') k' = map_of (graph_vertices s) k'" if "k' \<noteq> k" for k'
    using that by (simp add: gv map_of_erase_other)
  have detached: "e \<notin> set (edges_of s v) \<and> \<not> joins (edge_heap s) v e"
    if b: "b \<in> set (vertex_refs s')" and e: "e \<in> set (edges_of s' b)" for b e
  proof -
    have b': "b \<in> set (vertex_refs s)" "b \<noteq> v" using b refs by auto
    have e': "e \<in> set (edges_of s b)" "e \<notin> set (edges_of s v)" using e rest b by auto
    have "\<not> joins (edge_heap s) v e"
    proof
      assume "joins (edge_heap s) v e"
      from invariants_joined(2) [OF inv b'(1) e'(1) this b'(2)] e'(2) show False by simp
    qed
    with e'(2) show ?thesis by simp
  qed
  have len: "length (graph_vertices s') + 1 = length (graph_vertices s)"
    using length_erase [OF invariants_keys_distinct [OF inv] k] by (simp add: gv)
  let ?U = "\<Union>a\<in>set (vertex_refs s). set (edges_of s a)"
  have "(\<Union>a\<in>set (vertex_refs s'). set (edges_of s' a)) = ?U - set (edges_of s v)"
    using rest refs by auto
  moreover have "set (edges_of s v) \<subseteq> ?U" using rv by auto
  moreover have "card (set (edges_of s v)) = length (edges_of s v)"
    using invariants_ref [OF inv rv] by (simp add: distinct_card)
  moreover have "finite ?U" by simp
  ultimately have "edge_count s' + length (edges_of s v) = edge_count s"
    unfolding edge_count_card
    by (metis (no_types, lifting) List.finite_set card_Diff_subset card_mono le_add_diff_inverse2)
  with res inv' gone others detached len sz show ?thesis
    by (simp add: getSize_def getVertex_def)
qed

theorem removeVertex_detaches_witness:
  "invariants example_path \<and> map_of (graph_vertices example_path) 1 = Some 1 \<and>
   (\<exists>s'. removeVertex 1 example_path = Inr s' \<and> getSize s' = 2 \<and>
     edge_count s' = 0 \<and> edge_count example_path = 2)"
  using removeVertex_detaches [of example_path 1 1] invariants_example_path
    removeVertex_example_path
  by (simp add: example_path_def edge_count_def edges_of_def vertex_refs_def getSize_def)

text \<open>
  C4. On a graph that satisfies the invariants, with at least one edge (and so also
  with two or more parallel edges) between the vertices at two different keys \<open>k0\<close>
  and \<open>k1\<close>, \<open>removeEdge(k0, k1)\<close> returns and removes exactly the first edge in the
  collection of the vertex at \<open>k0\<close> that joins the vertex at \<open>k1\<close>: that one edge
  leaves both collections, each of which gets shorter by one, the other edges between
  the two vertices stay, one fewer than before, and the collections of all other
  vertices, the map, the counter and the edges themselves are unchanged.
\<close>

theorem removeEdge_removes_first_match:
  assumes inv: "invariants s" and ne: "k0 \<noteq> k1"
    and k0: "map_of (graph_vertices s) k0 = Some v0"
    and k1: "map_of (graph_vertices s) k1 = Some v1"
    and par: "filter (joins (edge_heap s) v1) (edges_of s v0) \<noteq> []"
  shows "\<exists>s'. removeEdge k0 k1 s = Inr s' \<and> invariants s' \<and>
     graph_vertices s' = graph_vertices s \<and> getSize s' = getSize s \<and> edge_heap s' = edge_heap s \<and>
     hd (filter (joins (edge_heap s) v1) (edges_of s v0)) \<in> set (edges_of s v0) \<inter> set (edges_of s v1) \<and>
     set (edges_of s' v0) =
       set (edges_of s v0) - {hd (filter (joins (edge_heap s) v1) (edges_of s v0))} \<and>
     set (edges_of s' v1) =
       set (edges_of s v1) - {hd (filter (joins (edge_heap s) v1) (edges_of s v0))} \<and>
     length (edges_of s' v0) + 1 = length (edges_of s v0) \<and>
     length (edges_of s' v1) + 1 = length (edges_of s v1) \<and>
     set (filter (joins (edge_heap s') v1) (edges_of s' v0)) =
       set (tl (filter (joins (edge_heap s) v1) (edges_of s v0))) \<and>
     length (filter (joins (edge_heap s') v1) (edges_of s' v0)) + 1 =
       length (filter (joins (edge_heap s) v1) (edges_of s v0)) \<and>
     (\<forall>b. b \<noteq> v0 \<and> b \<noteq> v1 \<longrightarrow> edges_of s' b = edges_of s b)"
proof -
  let ?P = "joins (edge_heap s) v1"
  let ?es = "edges_of s v0"
  let ?e = "hd (filter ?P ?es)"
  have he: "has_edge s k0 k1" using par by (simp add: has_edge_filter [OF k0 k1])
  from has_edge_scan [OF inv k0 k1] he obtain i where
    scan: "scan_edges (edge_heap s) v1 ?es = Inr i" and i: "i < length ?es"
    and first: "\<forall>j<i. \<not> ?P (?es ! j)" and hit: "?P (?es ! i)"
    by blast
  have e: "?e = ?es ! i" using i hit first by (rule hd_filter_first)
  from removeEdge_success [OF inv ne k0 k1 scan i] obtain s' where
    res: "removeEdge k0 k1 s = Inr s'" and inv': "invariants s'"
    and F: "graph_vertices s' = graph_vertices s" "graph_size s' = graph_size s"
      "edge_heap s' = edge_heap s"
    and in1: "?es ! i \<in> set (edges_of s v1)"
    and e0: "edges_of s' v0 = swap_remove i ?es"
    and e1: "edges_of s' v1 = swap_remove (find_ptr (?es ! i) (edges_of s v1)) (edges_of s v1)"
    and other: "\<forall>b. b \<noteq> v0 \<and> b \<noteq> v1 \<longrightarrow> edges_of s' b = edges_of s b"
    and rem: "\<forall>a\<in>set (vertex_refs s). set (edges_of s' a) = set (edges_of s a) - {?es ! i}"
    by blast
  have r0: "v0 \<in> set (vertex_refs s)" and r1: "v1 \<in> set (vertex_refs s)"
    using k0 k1 by (auto dest: map_of_ref)
  have d0: "distinct ?es" using invariants_ref [OF inv r0] by simp
  have d0': "distinct (edges_of s' v0)"
    using invariants_ref [OF inv', of v0] r0 by (simp add: vertex_refs_def F)
  have in0: "?es ! i \<in> set ?es" using i by simp
  have l0: "length (edges_of s' v0) + 1 = length ?es"
    using i by (simp add: e0 length_swap_remove)
  have l1: "length (edges_of s' v1) + 1 = length (edges_of s v1)"
    using in1 by (cases "edges_of s v1") (simp_all add: e1 length_swap_remove)
  have fs: "set (filter ?P (edges_of s' v0)) = set (tl (filter ?P ?es))"
  proof -
    have "distinct (filter ?P ?es)" using d0 by simp
    then have "set (tl (filter ?P ?es)) = set (filter ?P ?es) - {?e}"
      using par by (cases "filter ?P ?es") auto
    then show ?thesis using rem r0 by (auto simp: e)
  qed
  have "distinct (tl (filter ?P ?es))" using d0 by (simp add: distinct_tl)
  then have "length (filter ?P (edges_of s' v0)) = length (tl (filter ?P ?es))"
    using fs d0' by (metis distinct_card distinct_filter)
  then have fl: "length (filter ?P (edges_of s' v0)) + 1 = length (filter ?P ?es)"
    using par by (cases "filter ?P ?es") simp_all
  from res inv' F in0 in1 rem r0 r1 l0 l1 fs fl other show ?thesis
    by (simp add: e getSize_def)
qed

theorem removeEdge_removes_first_match_witness:
  "invariants example_parallel \<and> (0::nat) \<noteq> 1 \<and>
   map_of (graph_vertices example_parallel) 0 = Some 0 \<and>
   map_of (graph_vertices example_parallel) 1 = Some 1 \<and>
   filter (joins (edge_heap example_parallel) 1) (edges_of example_parallel 0) = [0, 1] \<and>
   (\<exists>s'. removeEdge 0 1 example_parallel = Inr s' \<and> edges_of s' 0 = [1] \<and> edges_of s' 1 = [1])"
  using removeEdge_removes_first_match [of example_parallel 0 1 0 1] invariants_example_parallel
    removeEdge_example_parallel
  by (simp add: example_parallel_def joins_def edges_of_def)

text \<open>
  C5, as amended. From a state that satisfies the invariants, every call other than
  an \<open>addVertex\<close> with a key that is already in the map either returns in a state
  that satisfies the invariants, or fails by an assertion or a missing key with the
  state exactly as it was before the call; and a call made with its precondition
  returns.
\<close>

theorem call_completes_or_fails_unchanged:
  assumes "invariants s"
    and "\<not> (\<exists>key data. c = AddVertex key data \<and> map_of (graph_vertices s) key \<noteq> None)"
  shows "((\<exists>s'. exec c s = Inr s' \<and> invariants s') \<or>
          exec c s = Inl (AssertionFailed, s) \<or> exec c s = Inl (OutOfRange, s)) \<and>
         (pre c s \<longrightarrow> (\<exists>s'. exec c s = Inr s' \<and> invariants s'))"
  using exec_cases [OF assms] exec_pre [OF assms(1), of c] by blast

theorem call_completes_or_fails_unchanged_witness:
  "invariants example_edge \<and>
   exec (AddEdge 1 1 ''z'') example_edge = Inl (AssertionFailed, example_edge) \<and>
   exec (RemoveVertex 7) example_edge = Inl (OutOfRange, example_edge) \<and>
   pre (RemoveEdge 0 1) example_edge \<and>
   (\<exists>s'. exec (RemoveEdge 0 1) example_edge = Inr s' \<and> invariants s')"
proof -
  have "\<not> (\<exists>key data. (RemoveEdge 0 1 :: (nat, string, string) operation) = AddVertex key data \<and>
      map_of (graph_vertices example_edge) key \<noteq> None)"
    by simp
  note t = call_completes_or_fails_unchanged [OF invariants_example_edge this]
  have p: "pre (RemoveEdge 0 1) example_edge"
    by (simp add: example_edge_def has_edge_def edges_of_def joins_def)
  from t [THEN conjunct2, rule_format, OF p]
  have "\<exists>s'. exec (RemoveEdge 0 1) example_edge = Inr s' \<and> invariants s'" .
  moreover have "exec (AddEdge 1 1 ''z'') example_edge = Inl (AssertionFailed, example_edge)"
    by (simp add: addEdge_def)
  moreover have "exec (RemoveVertex 7) example_edge = Inl (OutOfRange, example_edge)"
    by (simp add: removeVertex_def example_edge_def)
  ultimately show ?thesis using invariants_example_edge p by simp
qed

text \<open>
  C5 as stated fails for \<open>addVertex\<close> with a key that is already in the map: the call
  returns, it has changed the state, and the counter no longer equals the number of
  entries of the map.
\<close>

theorem call_completes_or_fails_unchanged_counterexample:
  "invariants example_pair \<and>
   exec (AddVertex 1 ''Z'') example_pair = Inr (addVertex 1 ''Z'' example_pair) \<and>
   addVertex 1 ''Z'' example_pair \<noteq> example_pair \<and>
   graph_size (addVertex 1 ''Z'' example_pair) = 3 \<and>
   length (graph_vertices (addVertex 1 ''Z'' example_pair)) = 2 \<and>
   \<not> inv_count (addVertex 1 ''Z'' example_pair) \<and>
   \<not> invariants (addVertex 1 ''Z'' example_pair)"
  using invariants_example_pair
  by (simp add: invariants_def inv_count_def)
    (simp add: example_pair_def addVertex_def insert_pair_def)

text \<open>
  C6. After each call of a sequence of calls made with their preconditions on the
  empty graph, \<open>getSize()\<close> equals the number of entries of the map (as \<open>size_t\<close>
  values, and as numbers while the map has fewer than \<open>2^64\<close> entries). A sequence of
  \<open>addVertex\<close> calls with pairwise distinct keys on the empty graph is such a
  sequence, and after it \<open>getSize()\<close> equals the number of calls.
\<close>

theorem getSize_counts_entries:
  "(run cs Graph_init = Some s \<longrightarrow>
      (\<forall>n\<le>length cs. \<exists>s'. run (take n cs) Graph_init = Some s' \<and>
          getSize s' = of_nat (length (graph_vertices s')) \<and>
          (length (graph_vertices s') < 2 ^ 64 \<longrightarrow>
             unat (getSize s') = length (graph_vertices s')))) \<and>
   (distinct (map fst kds) \<longrightarrow>
      (\<exists>s'. run (map (\<lambda>(key, data). AddVertex key data) kds)
               (Graph_init :: ('k, 'v, 'e) state) = Some s' \<and>
          length (graph_vertices s') = length kds \<and>
          getSize s' = of_nat (length kds) \<and>
          (length kds < 2 ^ 64 \<longrightarrow> unat (getSize s') = length kds)))"
proof (intro conjI allI impI)
  have size: "getSize s' = of_nat (length (graph_vertices s')) \<and>
      (length (graph_vertices s') < 2 ^ 64 \<longrightarrow> unat (getSize s') = length (graph_vertices s'))"
    if "run ds Graph_init = Some s'" for ds and s' :: "('x, 'y, 'z) state"
  proof -
    have "getSize s' = of_nat (length (graph_vertices s'))"
      using invariants_count [OF reachable_invariants [OF that]] by (simp add: getSize_def)
    then show ?thesis by (simp add: unat_of_nat)
  qed
  {
    fix n
    assume "run cs Graph_init = Some s"
    from run_take [OF this, of n] obtain s' where "run (take n cs) Graph_init = Some s'"
      by blast
    with size [OF this]
    show "\<exists>s'. run (take n cs) Graph_init = Some s' \<and>
          getSize s' = of_nat (length (graph_vertices s')) \<and>
          (length (graph_vertices s') < 2 ^ 64 \<longrightarrow>
             unat (getSize s') = length (graph_vertices s'))"
      by blast
  }
  {
    assume "distinct (map fst kds)"
    from run_addVertex_distinct [OF this, of "Graph_init :: ('k, 'v, 'e) state"] obtain s' where
      r: "run (map (\<lambda>(key, data). AddVertex key data) kds) (Graph_init :: ('k, 'v, 'e) state) =
        Some s'"
      and l: "length (graph_vertices s') = length kds"
      by (auto simp: Graph_init_def)
    have "getSize s' = of_nat (length kds) \<and>
        (length kds < 2 ^ 64 \<longrightarrow> unat (getSize s') = length kds)"
      using size [OF r] unfolding l .
    with r l
    show "\<exists>s'. run (map (\<lambda>(key, data). AddVertex key data) kds)
             (Graph_init :: ('k, 'v, 'e) state) = Some s' \<and>
          length (graph_vertices s') = length kds \<and>
          getSize s' = of_nat (length kds) \<and>
          (length kds < 2 ^ 64 \<longrightarrow> unat (getSize s') = length kds)"
      by blast
  }
qed

theorem getSize_counts_entries_witness:
  "run [AddVertex 0 ''A'', AddVertex 1 ''B'', AddEdge 0 1 ''x''] Graph_init = Some example_edge \<and>
   getSize example_edge = of_nat (length (graph_vertices example_edge)) \<and>
   distinct (map fst [(0::nat, ''A''), (1, ''B'')]) \<and>
   run (map (\<lambda>(key, data). AddVertex key data) [(0::nat, ''A''), (1, ''B'')]) Graph_init =
     Some example_pair \<and>
   getSize example_pair = 2"
proof -
  note t = getSize_counts_entries [of "[AddVertex 0 ''A'', AddVertex 1 ''B'', AddEdge 0 1 ''x'']"
      example_edge "[(0::nat, ''A''), (1, ''B'')]"]
  have tk: "take 3 [AddVertex 0 ''A'', AddVertex 1 ''B'', AddEdge 0 1 ''x''] =
      [AddVertex (0::nat) ''A'', AddVertex 1 ''B'', AddEdge 0 1 ''x'']"
    by simp
  have le: "3 \<le> length [AddVertex (0::nat) ''A'', AddVertex 1 ''B'', AddEdge 0 1 ''x'']"
    by simp
  from t [THEN conjunct1, rule_format, OF reach_example_edge le]
  obtain s' where "run (take 3 [AddVertex (0::nat) ''A'', AddVertex 1 ''B'', AddEdge 0 1 ''x'']) Graph_init =
      Some s'" and sz: "getSize s' = of_nat (length (graph_vertices s'))"
    by blast
  then have "s' = example_edge"
    unfolding tk reach_example_edge by simp
  with sz have "getSize example_edge = of_nat (length (graph_vertices example_edge))"
    by simp
  moreover have "getSize example_pair = 2"
    by (simp add: example_pair_def getSize_def)
  ultimately show ?thesis using reach_example_edge run_example_pair by simp
qed

text \<open>
  C7. \<open>addEdge(k, k, payload)\<close> fails its assertion in every state and leaves the
  state as it was; and in every state reached from the empty graph by calls made with
  their preconditions, the two ends of every edge in the collection of a vertex of the
  graph are different vertices.
\<close>

theorem addEdge_same_key_rejected:
  "addEdge k k d s = Inl (AssertionFailed, s) \<and>
   (run cs Graph_init = Some s' \<longrightarrow>
      (\<forall>a\<in>set (vertex_refs s'). \<forall>e\<in>set (edges_of s' a). fst (ends s' e) \<noteq> snd (ends s' e)))"
proof
  show "addEdge k k d s = Inl (AssertionFailed, s)" by (simp add: addEdge_def)
  show "run cs Graph_init = Some s' \<longrightarrow>
      (\<forall>a\<in>set (vertex_refs s'). \<forall>e\<in>set (edges_of s' a). fst (ends s' e) \<noteq> snd (ends s' e))"
    using reachable_invariants [of cs s'] invariants_edge [of s'] by blast
qed

theorem addEdge_same_key_rejected_witness:
  "run [AddVertex 0 ''A'', AddVertex 1 ''B'', AddEdge 0 1 ''x''] Graph_init = Some example_edge \<and>
   addEdge 1 1 ''z'' example_edge = Inl (AssertionFailed, example_edge) \<and>
   0 \<in> set (vertex_refs example_edge) \<and> 0 \<in> set (edges_of example_edge 0) \<and>
   fst (ends example_edge 0) \<noteq> snd (ends example_edge 0)"
proof -
  have m: "0 \<in> set (vertex_refs example_edge)" "0 \<in> set (edges_of example_edge 0)"
    by (simp_all add: example_edge_def vertex_refs_def edges_of_def)
  note t = addEdge_same_key_rejected [of 1 "''z''" example_edge
      "[AddVertex 0 ''A'', AddVertex 1 ''B'', AddEdge 0 1 ''x'']" example_edge]
  from t [THEN conjunct2, rule_format, OF reach_example_edge m] t [THEN conjunct1]
    reach_example_edge m
  show ?thesis by simp
qed

text \<open>
  C8. For every graph that satisfies the invariants and every key \<open>k\<close> in the map,
  \<open>getVertex(k)\<close> returns the vertex stored at \<open>k\<close> and \<open>getKey\<close> of that vertex
  returns \<open>k\<close>: the reverse lookup by identity undoes the lookup.
\<close>

theorem getKey_getVertex_roundtrip:
  assumes "invariants s" and "map_of (graph_vertices s) k = Some v"
  shows "getVertex k s = Inr v \<and> getKey v s = Inr k"
proof -
  have "distinct (map snd (graph_vertices s))"
    using invariants_refs_distinct [OF assms(1)] by (simp add: vertex_refs_def)
  moreover have "(k, v) \<in> set (graph_vertices s)"
    using assms(2) by (rule map_of_SomeD)
  ultimately have "scan_vertices v (graph_vertices s) = Some k"
    by (rule scan_vertices_found)
  with assms(2) show ?thesis by (simp add: getVertex_def getKey_def)
qed

theorem getKey_getVertex_roundtrip_witness:
  "invariants example_path \<and> map_of (graph_vertices example_path) 2 = Some 2 \<and>
   getVertex 2 example_path = Inr 2 \<and> getKey 2 example_path = Inr 2"
  using getKey_getVertex_roundtrip [of example_path 2 2] invariants_example_path
  by (simp add: example_path_def)

text \<open>
  C9. When the key \<open>k\<close> is already in the map, \<open>addVertex(k, payload)\<close> leaves the
  map, every vertex object that existed and every edge as they were, so \<open>getVertex(k)\<close>
  returns the vertex it returned before; the new vertex object is at an address the
  map does not hold (when the addresses in the map are those of existing objects); and
  \<open>getSize()\<close> is one more than before. So when the counter was the number of entries
  of the map (fewer than \<open>2^64 - 1\<close>), it is afterwards that number plus one, strictly
  more than the number of entries.
\<close>

theorem addVertex_existing_key:
  assumes "map_of (graph_vertices s) k = Some v"
  shows "graph_vertices (addVertex k d s) = graph_vertices s \<and>
     (\<forall>a<length (vertex_heap s). vertex_heap (addVertex k d s) ! a = vertex_heap s ! a) \<and>
     vertex_heap (addVertex k d s) ! length (vertex_heap s) =
       \<lparr>vertex_edges = [], vertex_data = d\<rparr> \<and>
     ((\<forall>a\<in>set (vertex_refs s). a < length (vertex_heap s)) \<longrightarrow>
        length (vertex_heap s) \<notin> set (vertex_refs (addVertex k d s))) \<and>
     edge_heap (addVertex k d s) = edge_heap s \<and>
     getVertex k (addVertex k d s) = getVertex k s \<and>
     getSize (addVertex k d s) = getSize s + 1 \<and>
     (getSize s = of_nat (length (graph_vertices s)) \<and> length (graph_vertices s) < 2 ^ 64 - 1 \<longrightarrow>
        unat (getSize (addVertex k d s)) = length (graph_vertices (addVertex k d s)) + 1 \<and>
        length (graph_vertices (addVertex k d s)) < unat (getSize (addVertex k d s)))"
proof -
  have gv: "graph_vertices (addVertex k d s) = graph_vertices s"
    using assms by (simp add: addVertex_def insert_pair_def)
  have sz: "getSize (addVertex k d s) = getSize s + 1"
    by (simp add: addVertex_def getSize_def)
  have "unat (getSize (addVertex k d s)) = length (graph_vertices s) + 1"
    if "getSize s = of_nat (length (graph_vertices s))" "length (graph_vertices s) < 2 ^ 64 - 1"
  proof -
    have e: "getSize (addVertex k d s) = of_nat (Suc (length (graph_vertices s)))"
      using that(1) by (simp add: sz)
    have "Suc (length (graph_vertices s)) < 2 ^ 64"
      using that(2) by simp
    then have "unat (of_nat (Suc (length (graph_vertices s))) :: 64 word) =
        Suc (length (graph_vertices s))"
      by (simp only: unat_of_nat len_num0 len_bit0 len_num1 mod_less mult_2 one_add_one) simp
    then show ?thesis by (simp only: e Suc_eq_plus1)
  qed
  moreover have "length (vertex_heap s) \<notin> set (vertex_refs (addVertex k d s))"
    if "\<forall>a\<in>set (vertex_refs s). a < length (vertex_heap s)"
    using that by (auto simp: vertex_refs_def gv)
  ultimately show ?thesis
    by (simp add: gv sz getVertex_def) (simp add: addVertex_def nth_append)
qed

theorem addVertex_existing_key_witness:
  "map_of (graph_vertices example_pair) 1 = Some 1 \<and>
   graph_vertices (addVertex 1 ''Z'' example_pair) = [(0, 0), (1, 1)] \<and>
   getSize (addVertex 1 ''Z'' example_pair) = 3 \<and>
   length (graph_vertices (addVertex 1 ''Z'' example_pair)) < unat (getSize (addVertex 1 ''Z'' example_pair))"
  using addVertex_existing_key [of example_pair 1 1 "''Z''"]
  by (simp add: example_pair_def getSize_def)

text \<open>
  C10. On a graph that satisfies the invariants, when \<open>removeEdge\<close> is called with
  its precondition, the scan finds an edge in the first vertex's collection and, after
  it has been taken out there, \<open>std::find\<close> finds the same edge inside the second
  vertex's collection, so the call returns. In the body of the loop of \<open>removeVertex\<close>,
  entered for a vertex of the graph with a non-empty collection, \<open>std::find\<close> finds the
  last edge inside the collection of the vertex at its other end, and the body ends in
  a state that satisfies the invariants again, so the same holds in the next pass;
  \<open>removeVertex\<close> called with its precondition returns. Neither call ever ends by
  writing through \<open>end()\<close>.
\<close>

theorem remove_searches_find_the_edge:
  assumes inv: "invariants s"
  shows "(pre (RemoveEdge k0 k1) s \<longrightarrow>
           (\<exists>v0 v1 i s'. map_of (graph_vertices s) k0 = Some v0 \<and>
              map_of (graph_vertices s) k1 = Some v1 \<and>
              scan_edges (edge_heap s) v1 (edges_of s v0) = Inr i \<and> i < length (edges_of s v0) \<and>
              find_ptr (edges_of s v0 ! i)
                  (edges_of (set_edges v0 (swap_remove i (edges_of s v0)) s) v1)
                < length (edges_of (set_edges v0 (swap_remove i (edges_of s v0)) s) v1) \<and>
              removeEdge k0 k1 s = Inr s')) \<and>
         (a \<in> set (vertex_refs s) \<and> edges_of s a \<noteq> [] \<longrightarrow>
           (\<exists>c s'. c = (if a = fst (ends s (last (edges_of s a)))
                         then snd (ends s (last (edges_of s a)))
                         else fst (ends s (last (edges_of s a)))) \<and>
              find_ptr (last (edges_of s a)) (edges_of (set_edges a (butlast (edges_of s a)) s) c)
                < length (edges_of (set_edges a (butlast (edges_of s a)) s) c) \<and>
              removeVertex_body a s = Inr s' \<and> invariants s')) \<and>
         (pre (RemoveVertex k) s \<longrightarrow> (\<exists>s'. removeVertex k s = Inr s')) \<and>
         (\<forall>st. removeEdge k0 k1 s \<noteq> Inl (InvalidIterator, st)) \<and>
         (\<forall>st. removeVertex k s \<noteq> Inl (InvalidIterator, st))"
proof (intro conjI impI)
  show "\<exists>v0 v1 i s'. map_of (graph_vertices s) k0 = Some v0 \<and>
              map_of (graph_vertices s) k1 = Some v1 \<and>
              scan_edges (edge_heap s) v1 (edges_of s v0) = Inr i \<and> i < length (edges_of s v0) \<and>
              find_ptr (edges_of s v0 ! i)
                  (edges_of (set_edges v0 (swap_remove i (edges_of s v0)) s) v1)
                < length (edges_of (set_edges v0 (swap_remove i (edges_of s v0)) s) v1) \<and>
              removeEdge k0 k1 s = Inr s'"
    if "pre (RemoveEdge k0 k1) s"
  proof -
    from that obtain v0 v1 where ne: "k0 \<noteq> k1" and k0: "map_of (graph_vertices s) k0 = Some v0"
      and k1: "map_of (graph_vertices s) k1 = Some v1" and he: "has_edge s k0 k1"
      by (auto simp: has_edge_def split: option.splits)
    from has_edge_scan [OF inv k0 k1] he obtain i where
      scan: "scan_edges (edge_heap s) v1 (edges_of s v0) = Inr i" and i: "i < length (edges_of s v0)"
      by blast
    from removeEdge_success [OF inv ne k0 k1 scan i] obtain s' where
      res: "removeEdge k0 k1 s = Inr s'" and in1: "edges_of s v0 ! i \<in> set (edges_of s v1)"
      by blast
    have v01: "v0 \<noteq> v1"
      using refs_differ [OF invariants_refs_distinct [OF inv] k0 k1 ne] .
    have "v0 < length (vertex_heap s)"
      using invariants_ref [OF inv map_of_ref [OF k0]] by simp
    then have "edges_of (set_edges v0 (swap_remove i (edges_of s v0)) s) v1 = edges_of s v1"
      using v01 by (simp add: edges_of_set_edges)
    with find_ptr_found [OF in1] k0 k1 scan i res show ?thesis by simp
  qed
  show "\<exists>c s'. c = (if a = fst (ends s (last (edges_of s a)))
                         then snd (ends s (last (edges_of s a)))
                         else fst (ends s (last (edges_of s a)))) \<and>
              find_ptr (last (edges_of s a)) (edges_of (set_edges a (butlast (edges_of s a)) s) c)
                < length (edges_of (set_edges a (butlast (edges_of s a)) s) c) \<and>
              removeVertex_body a s = Inr s' \<and> invariants s'"
    if "a \<in> set (vertex_refs s) \<and> edges_of s a \<noteq> []"
  proof -
    from that have a: "a \<in> set (vertex_refs s)" and ne: "edges_of s a \<noteq> []" by auto
    let ?e = "last (edges_of s a)"
    let ?c = "if a = fst (ends s ?e) then snd (ends s ?e) else fst (ends s ?e)"
    have ea: "?e \<in> set (edges_of s a)" using ne by simp
    note E = invariants_edge [OF inv a ea]
    have ca: "?c \<noteq> a" and ec: "?e \<in> set (edges_of s ?c)"
      using E by auto
    have "a < length (vertex_heap s)" using invariants_ref [OF inv a] by simp
    then have eq: "edges_of (set_edges a (butlast (edges_of s a)) s) ?c = edges_of s ?c"
      using ca by (simp only: edges_of_set_edges if_False)
    have f: "find_ptr ?e (edges_of (set_edges a (butlast (edges_of s a)) s) ?c)
        < length (edges_of (set_edges a (butlast (edges_of s a)) s) ?c)"
      unfolding eq using find_ptr_found [OF ec] by (rule conjunct1)
    from removeVertex_body_success [OF inv a ne] obtain s' where
      body: "removeVertex_body a s = Inr s'" "invariants s'" by blast
    show ?thesis
      by (intro exI conjI) (rule refl, rule f, rule body(1), rule body(2))
  qed
  show "\<exists>s'. removeVertex k s = Inr s'" if "pre (RemoveVertex k) s"
    using exec_pre [OF inv that] by auto
  show "\<forall>st. removeEdge k0 k1 s \<noteq> Inl (InvalidIterator, st)"
    using removeEdge_cases [OF inv, of k0 k1] by auto
  show "\<forall>st. removeVertex k s \<noteq> Inl (InvalidIterator, st)"
    using removeVertex_cases [OF inv, of k] by auto
qed

theorem remove_searches_find_the_edge_witness:
  "invariants example_parallel \<and> pre (RemoveEdge 0 1) example_parallel \<and>
   1 \<in> set (vertex_refs example_parallel) \<and> edges_of example_parallel 1 \<noteq> [] \<and>
   pre (RemoveVertex 1) example_parallel \<and>
   (\<exists>s'. removeEdge 0 1 example_parallel = Inr s') \<and>
   (\<exists>s'. removeVertex_body 1 example_parallel = Inr s') \<and>
   (\<exists>s'. removeVertex 1 example_parallel = Inr s')"
proof -
  have p: "pre (RemoveEdge 0 1) example_parallel" "pre (RemoveVertex 1) example_parallel"
    "1 \<in> set (vertex_refs example_parallel) \<and> edges_of example_parallel 1 \<noteq> []"
    by (simp_all add: example_parallel_def has_edge_def joins_def edges_of_def vertex_refs_def)
  note t = remove_searches_find_the_edge [OF invariants_example_parallel, of 0 1 1 1]
  from t [THEN conjunct1, rule_format, OF p(1)]
  have "\<exists>s'. removeEdge 0 1 example_parallel = Inr s'" by (elim exE conjE) (rule exI)
  moreover from t [THEN conjunct2, THEN conjunct1, rule_format, OF p(3)]
  have "\<exists>s'. removeVertex_body 1 example_parallel = Inr s'" by (elim exE conjE) (rule exI)
  moreover from t [THEN conjunct2, THEN conjunct2, THEN conjunct1, rule_format, OF p(2)]
  have "\<exists>s'. removeVertex 1 example_parallel = Inr s'" .
  ultimately show ?thesis using invariants_example_parallel p by simp
qed

end
